theory Spec2Isabelle
  imports Main "HOL-Library.Option_ord" "HOL-Library.Char_ord" "HOL-Library.List_Lexorder"
begin

section \<open>Edges\<close>

text \<open>
  The class hierarchy \<open>edge<N, E>\<close> with its two final subclasses \<open>unweighted_edge\<close> and
  \<open>weighted_edge\<close> is a datatype with one constructor per subclass. The virtual member
  functions become functions by cases on the constructor. Node values \<open>N\<close> and weights
  \<open>E\<close> are type parameters; wherever the source compares them with \<open><\<close> they are of
  class \<open>linorder\<close>.
\<close>

datatype ('n, 'e) edge = unweighted_edge 'n 'n | weighted_edge 'n 'n 'e

fun get_nodes :: "('n, 'e) edge \<Rightarrow> 'n \<times> 'n" where
  "get_nodes (unweighted_edge s d) = (s, d)"
| "get_nodes (weighted_edge s d w) = (s, d)"

fun is_weighted :: "('n, 'e) edge \<Rightarrow> bool" where
  "is_weighted (unweighted_edge s d) = False"
| "is_weighted (weighted_edge s d w) = True"

fun get_weight :: "('n, 'e) edge \<Rightarrow> 'e option" where
  "get_weight (unweighted_edge s d) = None"
| "get_weight (weighted_edge s d w) = Some w"

text \<open>\<open>edge::operator==\<close>: content equality of two edges.\<close>

definition edge_eq :: "('n, 'e) edge \<Rightarrow> ('n, 'e) edge \<Rightarrow> bool" where
  "edge_eq this other =
     (if fst (get_nodes this) \<noteq> fst (get_nodes other) \<or> snd (get_nodes this) \<noteq> snd (get_nodes other)
      then False
      else if is_weighted this \<and> is_weighted other
      then get_weight this = get_weight other
      else \<not> is_weighted this \<and> \<not> is_weighted other)"

section \<open>Shared edge handles and their ordering\<close>

text \<open>
  A \<open>std::shared_ptr<edge>\<close> is the address of the allocation together with the edge stored
  there (edges are never modified after construction). Pointer equality \<open>a == b\<close> and
  \<open>std::less\<close> on the raw pointers compare the addresses.
\<close>

type_synonym ('n, 'e) edge_ptr = "nat \<times> ('n, 'e) edge"

definition EdgePtrComparator ::
  "('n::linorder, 'e::linorder) edge_ptr \<Rightarrow> ('n, 'e) edge_ptr \<Rightarrow> bool" where
  "EdgePtrComparator a b =
     (if fst a = fst b then False
      else if fst (get_nodes (snd a)) \<noteq> fst (get_nodes (snd b))
      then fst (get_nodes (snd a)) < fst (get_nodes (snd b))
      else if snd (get_nodes (snd a)) \<noteq> snd (get_nodes (snd b))
      then snd (get_nodes (snd a)) < snd (get_nodes (snd b))
      else if is_weighted (snd a) \<noteq> is_weighted (snd b)
      then \<not> is_weighted (snd a)
      else if is_weighted (snd a) \<and> is_weighted (snd b) \<and> get_weight (snd a) \<noteq> get_weight (snd b)
      then get_weight (snd a) < get_weight (snd b)
      else fst a < fst b)"

section \<open>Ordered containers\<close>

text \<open>
  A \<open>std::set<T, Cmp>\<close> is the list of its elements in iteration order. \<open>set_insert\<close> is
  \<open>std::set::insert\<close>: it walks to the first element that is not less than the new one,
  refuses the new element when that one is equivalent under the comparator, and reports
  whether it inserted. \<open>find_if\<close> returns the position of the first match, the length of
  the list standing for \<open>end()\<close>; \<open>erase_at\<close> is \<open>erase(iterator)\<close>.
\<close>

fun set_insert :: "('a \<Rightarrow> 'a \<Rightarrow> bool) \<Rightarrow> 'a \<Rightarrow> 'a list \<Rightarrow> 'a list \<times> bool" where
  "set_insert cmp x [] = ([x], True)"
| "set_insert cmp x (y # ys) =
     (if cmp x y then (x # y # ys, True)
      else if cmp y x then (y # fst (set_insert cmp x ys), snd (set_insert cmp x ys))
      else (y # ys, False))"

fun find_if :: "('a \<Rightarrow> bool) \<Rightarrow> 'a list \<Rightarrow> nat" where
  "find_if P [] = 0"
| "find_if P (x # xs) = (if P x then 0 else Suc (find_if P xs))"

definition erase_at :: "nat \<Rightarrow> 'a list \<Rightarrow> 'a list" where
  "erase_at i xs = take i xs @ drop (Suc i) xs"

section \<open>The graph store\<close>

text \<open>
  The single data member \<open>g_\<close>, a \<open>std::map<N, std::pair<edge_ptr_set, edge_ptr_set>>\<close>, is
  the list of its entries in key order: each node with its outgoing and its incoming
  handles. A graph value is the value of \<open>g_\<close>.
\<close>

type_synonym ('n, 'e) edge_ptr_set = "('n, 'e) edge_ptr list"

type_synonym ('n, 'e) edge_ptr_set_pair = "('n, 'e) edge_ptr_set \<times> ('n, 'e) edge_ptr_set"

type_synonym ('n, 'e) graph = "('n \<times> ('n, 'e) edge_ptr_set_pair) list"

text \<open>\<open>g_[value] = edge_ptr_set_pair()\<close>: assignment through \<open>operator[]\<close>.\<close>

fun map_assign :: "'n::linorder \<Rightarrow> 'v \<Rightarrow> ('n \<times> 'v) list \<Rightarrow> ('n \<times> 'v) list" where
  "map_assign k v [] = [(k, v)]"
| "map_assign k v (p # ps) =
     (if k < fst p then (k, v) # p # ps
      else if fst p < k then p # map_assign k v ps
      else (k, v) # ps)"

text \<open>\<open>g_.erase(key)\<close>.\<close>

definition map_erase :: "'n \<Rightarrow> ('n \<times> 'v) list \<Rightarrow> ('n \<times> 'v) list" where
  "map_erase k g = filter (\<lambda>p. fst p \<noteq> k) g"

text \<open>\<open>g_.find(key)\<close> as a position; the length of the list is \<open>g_.end()\<close>.\<close>

definition map_find :: "('n \<times> 'v) list \<Rightarrow> 'n \<Rightarrow> nat" where
  "map_find g k = find_if (\<lambda>p. fst p = k) g"

definition is_node :: "('n, 'e) graph \<Rightarrow> 'n \<Rightarrow> bool" where
  "is_node g v = (map_find g v \<noteq> length g)"

text \<open>
  \<open>g_[n].first\<close> and \<open>g_[n].second\<close> read, and modified in place. Every use in the
  source is behind an \<open>is_node\<close> check or on a node that exists; for an absent node
  the read gives the empty set \<open>operator[]\<close> would create.
\<close>

definition outgoing :: "('n, 'e) graph \<Rightarrow> 'n \<Rightarrow> ('n, 'e) edge_ptr_set" where
  "outgoing g n = (case map_of g n of None \<Rightarrow> [] | Some p \<Rightarrow> fst p)"

definition incoming :: "('n, 'e) graph \<Rightarrow> 'n \<Rightarrow> ('n, 'e) edge_ptr_set" where
  "incoming g n = (case map_of g n of None \<Rightarrow> [] | Some p \<Rightarrow> snd p)"

definition update_first ::
  "'n \<Rightarrow> (('n, 'e) edge_ptr_set \<Rightarrow> ('n, 'e) edge_ptr_set) \<Rightarrow> ('n, 'e) graph \<Rightarrow> ('n, 'e) graph" where
  "update_first n f g = map (\<lambda>p. if fst p = n then (fst p, (f (fst (snd p)), snd (snd p))) else p) g"

definition update_second ::
  "'n \<Rightarrow> (('n, 'e) edge_ptr_set \<Rightarrow> ('n, 'e) edge_ptr_set) \<Rightarrow> ('n, 'e) graph \<Rightarrow> ('n, 'e) graph" where
  "update_second n f g = map (\<lambda>p. if fst p = n then (fst p, (fst (snd p), f (snd (snd p)))) else p) g"

section \<open>Errors\<close>

text \<open>
  A thrown \<open>std::runtime_error\<close> carries its message. \<open>undefined_behaviour\<close> marks the
  executions the language leaves undefined (a null or past-the-end dereference).
  A member function that can throw returns \<open>error + result\<close> together with the graph
  as the call leaves it.
\<close>

datatype error = runtime_error string | undefined_behaviour

section \<open>Modifiers\<close>

definition insert_node :: "'n::linorder \<Rightarrow> ('n, 'e) graph \<Rightarrow> bool \<times> ('n, 'e) graph" where
  "insert_node v g = (if is_node g v then (False, g) else (True, map_assign v ([], []) g))"

text \<open>
  \<open>std::make_shared\<close> returns the address of a fresh allocation: one that no handle
  stored in the graph has. The model takes the first address above all of them.
\<close>

definition live_addresses :: "('n, 'e) graph \<Rightarrow> nat list" where
  "live_addresses g = concat (map (\<lambda>p. map fst (fst (snd p)) @ map fst (snd (snd p))) g)"

definition make_shared :: "('n, 'e) graph \<Rightarrow> ('n, 'e) edge \<Rightarrow> ('n, 'e) edge_ptr" where
  "make_shared g e = (Suc (fold max (live_addresses g) 0), e)"

definition create_edge_ptr ::
  "('n, 'e) graph \<Rightarrow> 'n \<Rightarrow> 'n \<Rightarrow> 'e option \<Rightarrow> ('n, 'e) edge_ptr" where
  "create_edge_ptr g src dst weight =
     (case weight of
        None \<Rightarrow> make_shared g (unweighted_edge src dst)
      | Some w \<Rightarrow> make_shared g (weighted_edge src dst w))"

definition existed_edge :: "('n, 'e) edge_ptr_set \<Rightarrow> ('n, 'e) edge_ptr \<Rightarrow> bool" where
  "existed_edge edges_ptr new_edge_ptr =
     (find_if (\<lambda>e. edge_eq (snd e) (snd new_edge_ptr)) edges_ptr \<noteq> length edges_ptr)"

definition insert_edge ::
  "'n::linorder \<Rightarrow> 'n \<Rightarrow> 'e::linorder option \<Rightarrow> ('n, 'e) graph \<Rightarrow> (error + bool) \<times> ('n, 'e) graph" where
  "insert_edge src dst weight g =
     (if \<not> is_node g src \<or> \<not> is_node g dst
      then (Inl (runtime_error
        ''Cannot call gdwg::graph<N, E>::insert_edge when either src or dst node does not exist''), g)
      else
        let new_edge_ptr = create_edge_ptr g src dst weight in
        if existed_edge (outgoing g src) new_edge_ptr \<or> existed_edge (incoming g dst) new_edge_ptr
        then (Inr False, g)
        else
          let r1 = set_insert EdgePtrComparator new_edge_ptr (outgoing g src);
              g1 = update_first src (\<lambda>s. fst r1) g
          in if \<not> snd r1 then (Inr False, g1)
             else
               let r2 = set_insert EdgePtrComparator new_edge_ptr (incoming g1 dst)
               in (Inr (snd r2), update_second dst (\<lambda>s. fst r2) g1))"

text \<open>
  The lambda \<open>insert_new_edge\<close> of \<open>move_node_data\<close>, and its two range-for loops. A
  loop stops at the first call that throws, with the graph as that call left it.
\<close>

definition insert_new_edge ::
  "('n::linorder, 'e::linorder) edge_ptr \<Rightarrow> 'n \<Rightarrow> 'n \<Rightarrow> ('n, 'e) graph \<Rightarrow> (error + bool) \<times> ('n, 'e) graph" where
  "insert_new_edge edge_ptr src dst g =
     (if is_weighted (snd edge_ptr) then insert_edge src dst (get_weight (snd edge_ptr)) g
      else insert_edge src dst None g)"

fun handle_outgoing ::
  "'n::linorder \<Rightarrow> ('n, 'e::linorder) edge_ptr list \<Rightarrow> ('n, 'e) graph \<Rightarrow> (error + unit) \<times> ('n, 'e) graph" where
  "handle_outgoing new_node [] g = (Inr (), g)"
| "handle_outgoing new_node (e # es) g =
     (case insert_new_edge e new_node (snd (get_nodes (snd e))) g of
        (Inl err, g') \<Rightarrow> (Inl err, g')
      | (Inr b, g') \<Rightarrow> handle_outgoing new_node es g')"

fun handle_incoming ::
  "'n::linorder \<Rightarrow> ('n, 'e::linorder) edge_ptr list \<Rightarrow> ('n, 'e) graph \<Rightarrow> (error + unit) \<times> ('n, 'e) graph" where
  "handle_incoming new_node [] g = (Inr (), g)"
| "handle_incoming new_node (e # es) g =
     (case insert_new_edge e (fst (get_nodes (snd e))) new_node g of
        (Inl err, g') \<Rightarrow> (Inl err, g')
      | (Inr b, g') \<Rightarrow> handle_incoming new_node es g')"

text \<open>
  \<open>move_node_data\<close> is only called with \<open>old_node \<noteq> new_node\<close>, so neither loop
  inserts into the set it is iterating: the first loop runs over \<open>g_[old_node].first\<close> as
  it is on entry, the second over \<open>g_[old_node].second\<close> as the first loop left it.
\<close>

definition move_node_data ::
  "'n::linorder \<Rightarrow> 'n \<Rightarrow> ('n, 'e::linorder) graph \<Rightarrow> (error + unit) \<times> ('n, 'e) graph" where
  "move_node_data old_node new_node g =
     (case handle_outgoing new_node (outgoing g old_node) g of
        (Inl err, g1) \<Rightarrow> (Inl err, g1)
      | (Inr u, g1) \<Rightarrow>
          (case handle_incoming new_node (incoming g1 old_node) g1 of
             (Inl err, g2) \<Rightarrow> (Inl err, g2)
           | (Inr u', g2) \<Rightarrow> (Inr (), map_erase old_node g2)))"

definition replace_node ::
  "'n::linorder \<Rightarrow> 'n \<Rightarrow> ('n, 'e::linorder) graph \<Rightarrow> (error + bool) \<times> ('n, 'e) graph" where
  "replace_node old_data new_data g =
     (if \<not> is_node g old_data
      then (Inl (runtime_error
        ''Cannot call gdwg::graph<N, E>::replace_node on a node that doesn't exist''), g)
      else if is_node g new_data then (Inr False, g)
      else
        case move_node_data old_data new_data (snd (insert_node new_data g)) of
          (Inl err, g') \<Rightarrow> (Inl err, g')
        | (Inr u, g') \<Rightarrow> (Inr True, g'))"

definition merge_replace_node ::
  "'n::linorder \<Rightarrow> 'n \<Rightarrow> ('n, 'e::linorder) graph \<Rightarrow> (error + unit) \<times> ('n, 'e) graph" where
  "merge_replace_node old_data new_data g =
     (if \<not> is_node g old_data \<or> \<not> is_node g new_data
      then (Inl (runtime_error
        ''Cannot call gdwg::graph<N, E>::merge_replace_node on old or new data if they don't exist in the graph''), g)
      else if old_data = new_data then (Inr (), g)
      else move_node_data old_data new_data g)"

definition erase_node :: "'n \<Rightarrow> ('n, 'e) graph \<Rightarrow> bool \<times> ('n, 'e) graph" where
  "erase_node v g =
     (if \<not> is_node g v then (False, g)
      else
        let g1 = update_first v (\<lambda>s. []) g;
            g2 = update_second v (\<lambda>s. []) g1;
            g3 = map (\<lambda>p. if fst p \<noteq> v
                            then (fst p,
                                  (filter (\<lambda>e. snd (get_nodes (snd e)) \<noteq> v) (fst (snd p)),
                                   filter (\<lambda>e. fst (get_nodes (snd e)) \<noteq> v) (snd (snd p))))
                            else p) g2
        in (True, map_erase v g3))"

definition erase_edge ::
  "'n \<Rightarrow> 'n \<Rightarrow> 'e option \<Rightarrow> ('n, 'e) graph \<Rightarrow> (error + bool) \<times> ('n, 'e) graph" where
  "erase_edge src dst weight g =
     (if \<not> is_node g src \<or> \<not> is_node g dst
      then (Inl (runtime_error
        ''Cannot call gdwg::graph<N, E>::erase_edge on src or dst if they don't exist in the graph''), g)
      else
        let temp_edge_ptr = create_edge_ptr g src dst weight;
            outgoing_edges = outgoing g src;
            it = find_if (\<lambda>e. edge_eq (snd e) (snd temp_edge_ptr)) outgoing_edges
        in if it \<noteq> length outgoing_edges
           then
             let g1 = update_first src (erase_at it) g;
                 incoming_edges = incoming g1 dst;
                 in_it = find_if (\<lambda>e. edge_eq (snd e) (snd temp_edge_ptr)) incoming_edges
             in if in_it \<noteq> length incoming_edges
                then (Inr True, update_second dst (erase_at in_it) g1)
                else (Inr False, g1)
           else (Inr False, g))"

definition clear :: "('n, 'e) graph \<Rightarrow> ('n, 'e) graph" where
  "clear g = []"

section \<open>Accessors\<close>

definition graph_empty :: "('n, 'e) graph \<Rightarrow> bool" where
  "graph_empty g = (g = [])"

definition is_connected :: "('n, 'e) graph \<Rightarrow> 'n \<Rightarrow> 'n \<Rightarrow> error + bool" where
  "is_connected g src dst =
     (if \<not> is_node g src \<or> \<not> is_node g dst
      then Inl (runtime_error
        ''Cannot call gdwg::graph<N, E>::is_connected if src or dst node don't exist in the graph'')
      else Inr (list_ex (\<lambda>edge_ptr. snd (get_nodes (snd edge_ptr)) = dst) (outgoing g src)))"

definition nodes :: "('n, 'e) graph \<Rightarrow> 'n list" where
  "nodes g = map fst g"

text \<open>
  The copy \<open>edges\<close> pushes for one handle. \<open>get_weight().value()\<close> is only evaluated on a
  weighted edge, where the weight is present.
\<close>

definition edge_copy :: "('n, 'e) edge_ptr \<Rightarrow> ('n, 'e) edge" where
  "edge_copy edge_ptr =
     (if is_weighted (snd edge_ptr)
      then weighted_edge (fst (get_nodes (snd edge_ptr))) (snd (get_nodes (snd edge_ptr)))
             (the (get_weight (snd edge_ptr)))
      else unweighted_edge (fst (get_nodes (snd edge_ptr))) (snd (get_nodes (snd edge_ptr))))"

definition edges :: "('n, 'e) graph \<Rightarrow> 'n \<Rightarrow> 'n \<Rightarrow> error + ('n, 'e) edge list" where
  "edges g src dst =
     (if \<not> is_node g src \<or> \<not> is_node g dst
      then Inl (runtime_error
        ''Cannot call gdwg::graph<N, E>::edges if src or dst node don't exist in the graph'')
      else Inr (map edge_copy
                  (filter (\<lambda>edge_ptr. snd (get_nodes (snd edge_ptr)) = dst) (outgoing g src))))"

text \<open>
  \<open>connections\<close> collects the destinations in a \<open>std::set<N>\<close>, one \<open>insert\<close> per outgoing
  edge in order, and returns the set's elements.
\<close>

definition connections :: "('n::linorder, 'e) graph \<Rightarrow> 'n \<Rightarrow> error + 'n list" where
  "connections g src =
     (if \<not> is_node g src
      then Inl (runtime_error
        ''Cannot call gdwg::graph<N, E>::connections if src doesn't exist in the graph'')
      else Inr (fold (\<lambda>edge_ptr unique_dests.
                        fst (set_insert (<) (snd (get_nodes (snd edge_ptr))) unique_dests))
                  (outgoing g src) []))"

section \<open>The iterator\<close>

text \<open>
  A \<open>std::map\<close> or \<open>std::set\<close> const_iterator is a position in the container's
  sequence: \<open>Some i\<close> is the position before element \<open>i\<close>, the length of the sequence being
  \<open>end()\<close>, and \<open>None\<close> is a value-initialised iterator, which belongs to no container.
  \<open>current_edge_\<close> is a position in the outgoing set of the node \<open>current_node_\<close> stands
  at. \<open>graph_ptr_\<close> is the address of the graph object, \<open>None\<close> for \<open>nullptr\<close>. The
  functions below that read through \<open>graph_ptr_\<close> take the graph stored at that address
  as their argument \<open>g\<close>; dereferencing \<open>nullptr\<close>, a singular iterator or an iterator at
  or past the end of its container is undefined behaviour. The value type of the
  iterator, the struct \<open>{from, to, weight}\<close>, is a triple.
\<close>

record iterator =
  current_node :: "nat option"
  current_edge :: "nat option"
  graph_ptr :: "nat option"

type_synonym ('n, 'e) value_type = "'n \<times> 'n \<times> 'e option"

text \<open>The default constructor \<open>iterator()\<close>.\<close>

definition iterator_default :: iterator where
  "iterator_default = \<lparr>current_node = None, current_edge = None, graph_ptr = None\<rparr>"

text \<open>\<open>iterator::end(g)\<close>, which \<open>graph::end()\<close> returns for \<open>this\<close>.\<close>

definition graph_end :: "nat \<Rightarrow> ('n, 'e) graph \<Rightarrow> iterator" where
  "graph_end this g = \<lparr>current_node = Some (length g), current_edge = None, graph_ptr = Some this\<rparr>"

text \<open>The loop of \<open>iterator::begin\<close> that skips the nodes without outgoing edges.\<close>

function skip_empty :: "('n, 'e) graph \<Rightarrow> nat \<Rightarrow> nat" where
  "skip_empty g node_it =
     (if node_it \<noteq> length g \<and> node_it < length g \<and> fst (snd (g ! node_it)) = []
      then skip_empty g (Suc node_it)
      else node_it)"
  by pat_completeness auto
termination
  by (relation "measure (\<lambda>(g, node_it). length g - node_it)") auto

definition graph_begin :: "nat \<Rightarrow> ('n, 'e) graph \<Rightarrow> iterator" where
  "graph_begin this g =
     (if g = [] then graph_end this g
      else
        let node_it = skip_empty g 0 in
        if node_it = length g then graph_end this g
        else \<lparr>current_node = Some node_it, current_edge = Some 0, graph_ptr = Some this\<rparr>)"

text \<open>\<open>operator*\<close>.\<close>

definition deref :: "('n, 'e) graph \<Rightarrow> iterator \<Rightarrow> error + ('n, 'e) value_type" where
  "deref g it =
     (case (current_node it, current_edge it) of
        (Some i, Some j) \<Rightarrow>
          if i < length g \<and> j < length (fst (snd (g ! i)))
          then
            let edge = snd (fst (snd (g ! i)) ! j) in
            Inr (fst (get_nodes edge), snd (get_nodes edge),
                 if is_weighted edge then get_weight edge else None)
          else Inl undefined_behaviour
      | _ \<Rightarrow> Inl undefined_behaviour)"

text \<open>
  The do-while loop of \<open>operator++\<close>: from node position \<open>i\<close> to the next node with an
  outgoing edge, \<open>None\<close> when the loop reaches \<open>g_.end()\<close> and returns the end iterator.
\<close>

function next_node :: "('n, 'e) graph \<Rightarrow> nat \<Rightarrow> nat option" where
  "next_node g i =
     (if length g \<le> Suc i then None
      else if fst (snd (g ! Suc i)) = [] then next_node g (Suc i)
      else Some (Suc i))"
  by pat_completeness auto
termination
  by (relation "measure (\<lambda>(g, i). length g - i)") auto

text \<open>\<open>operator++\<close> (prefix); its precondition is an iterator that can be dereferenced.\<close>

definition iter_incr :: "('n, 'e) graph \<Rightarrow> iterator \<Rightarrow> error + iterator" where
  "iter_incr g it =
     (case (current_node it, current_edge it, graph_ptr it) of
        (Some i, Some j, Some p) \<Rightarrow>
          if i < length g \<and> j < length (fst (snd (g ! i)))
          then
            if Suc j = length (fst (snd (g ! i)))
            then
              (case next_node g i of
                 None \<Rightarrow> Inr (graph_end p g)
               | Some i' \<Rightarrow> Inr (it\<lparr>current_node := Some i', current_edge := Some 0\<rparr>))
            else Inr (it\<lparr>current_edge := Some (Suc j)\<rparr>)
          else Inl undefined_behaviour
      | _ \<Rightarrow> Inl undefined_behaviour)"

text \<open>
  \<open>operator==\<close>. After the comparison of the two \<open>graph_ptr_\<close> members every later step
  reads \<open>graph_ptr_->g_\<close>; \<open>g\<close> is the graph at that common address.
\<close>

definition iter_eq :: "('n, 'e) graph \<Rightarrow> iterator \<Rightarrow> iterator \<Rightarrow> error + bool" where
  "iter_eq g this other =
     (if graph_ptr this \<noteq> graph_ptr other then Inr False
      else
        case graph_ptr this of
          None \<Rightarrow> Inl undefined_behaviour
        | Some p \<Rightarrow>
            (case (current_node this, current_node other) of
               (Some i, Some k) \<Rightarrow>
                 if i = length g \<and> k = length g then Inr True
                 else if i = length g \<or> k = length g then Inr False
                 else if length g < i \<or> length g < k then Inl undefined_behaviour
                 else if g ! i \<noteq> g ! k then Inr False
                 else
                   (case (current_edge this, current_edge other) of
                      (Some j, Some l) \<Rightarrow>
                        if j = length (fst (snd (g ! i))) \<and> l = length (fst (snd (g ! k)))
                        then Inr True
                        else if j = length (fst (snd (g ! i))) \<or> l = length (fst (snd (g ! k)))
                        then Inr False
                        else if length (fst (snd (g ! i))) < j \<or> length (fst (snd (g ! k))) < l
                        then Inl undefined_behaviour
                        else Inr (edge_eq (snd (fst (snd (g ! i)) ! j)) (snd (fst (snd (g ! k)) ! l)))
                    | _ \<Rightarrow> Inl undefined_behaviour)
             | _ \<Rightarrow> Inl undefined_behaviour))"

text \<open>\<open>graph::find\<close>.\<close>

definition graph_find ::
  "nat \<Rightarrow> 'n \<Rightarrow> 'n \<Rightarrow> 'e option \<Rightarrow> ('n, 'e) graph \<Rightarrow> iterator" where
  "graph_find this src dst weight g =
     (if \<not> is_node g src \<or> \<not> is_node g dst then graph_end this g
      else
        let edges_ptr_set = outgoing g src;
            find_edge_ptr = create_edge_ptr g src dst weight;
            it = find_if (\<lambda>e. edge_eq (snd e) (snd find_edge_ptr)) edges_ptr_set
        in if it = length edges_ptr_set then graph_end this g
           else \<lparr>current_node = Some (map_find g src), current_edge = Some it, graph_ptr = Some this\<rparr>)"

text \<open>
  \<open>erase_edge(iterator i)\<close>. An iterator of a \<open>std::set\<close> keeps denoting its element when
  another element is erased: \<open>next\<close>, taken before the erasure, stands one position
  earlier afterwards when it is in the set the edge was erased from, behind the erased
  position (\<open>keep_element\<close>).
\<close>

definition keep_element :: "('n, 'e) graph \<Rightarrow> 'n \<Rightarrow> nat \<Rightarrow> iterator \<Rightarrow> iterator" where
  "keep_element g src pos it =
     (case (current_node it, current_edge it) of
        (Some i, Some j) \<Rightarrow>
          if i < length g \<and> fst (g ! i) = src \<and> pos < j then it\<lparr>current_edge := Some (j - 1)\<rparr> else it
      | _ \<Rightarrow> it)"

definition erase_edge_iter ::
  "nat \<Rightarrow> iterator \<Rightarrow> ('n, 'e) graph \<Rightarrow> (error + iterator) \<times> ('n, 'e) graph" where
  "erase_edge_iter this i g =
     (case iter_eq g i (graph_end this g) of
        Inl err \<Rightarrow> (Inl err, g)
      | Inr at_end \<Rightarrow>
          if at_end then (Inr (graph_end this g), g)
          else
            (case deref g i of
               Inl err \<Rightarrow> (Inl err, g)
             | Inr v \<Rightarrow>
                 (case iter_incr g i of
                    Inl err \<Rightarrow> (Inl err, g)
                  | Inr next \<Rightarrow>
                      (case erase_edge (fst v) (fst (snd v)) (snd (snd v)) g of
                         (Inl err, g') \<Rightarrow> (Inl err, g')
                       | (Inr erased, g') \<Rightarrow>
                           if erased
                           then (Inr (keep_element g (fst v)
                                        (find_if (\<lambda>e. edge_eq (snd e)
                                                    (snd (create_edge_ptr g (fst v) (fst (snd v)) (snd (snd v)))))
                                           (outgoing g (fst v)))
                                        next), g')
                           else (Inr i, g')))))"

text \<open>
  The two distances that decrease along \<open>operator++\<close>: the nodes from \<open>current_node_\<close> to
  \<open>g_.end()\<close>, and the edges from \<open>current_edge_\<close> to the end of the current outgoing set.
\<close>

definition node_distance :: "nat \<times> ('n, 'e) graph \<times> iterator \<Rightarrow> nat" where
  "node_distance =
     (\<lambda>(this, g, it). length g - (case current_node it of None \<Rightarrow> 0 | Some i \<Rightarrow> i))"

definition edge_distance :: "nat \<times> ('n, 'e) graph \<times> iterator \<Rightarrow> nat" where
  "edge_distance =
     (\<lambda>(this, g, it).
        case (current_node it, current_edge it) of
          (Some i, Some j) \<Rightarrow> length (fst (snd (g ! i))) - j
        | _ \<Rightarrow> 0)"

text \<open>
  The traversal a client writes: \<open>for (auto it = g.begin(); it != g.end(); ++it)\<close>
  collecting \<open>*it\<close>. \<open>traverse\<close> is the loop from a given iterator on.
\<close>

function traverse :: "nat \<Rightarrow> ('n, 'e) graph \<Rightarrow> iterator \<Rightarrow> error + ('n, 'e) value_type list" where
  "traverse this g it =
     (case iter_eq g it (graph_end this g) of
        Inl err \<Rightarrow> Inl err
      | Inr at_end \<Rightarrow>
          if at_end then Inr []
          else
            (case deref g it of
               Inl err \<Rightarrow> Inl err
             | Inr v \<Rightarrow>
                 (case iter_incr g it of
                    Inl err \<Rightarrow> Inl err
                  | Inr it' \<Rightarrow>
                      (case traverse this g it' of
                         Inl err \<Rightarrow> Inl err
                       | Inr vs \<Rightarrow> Inr (v # vs)))))"
  by pat_completeness auto
termination traverse
proof (relation "node_distance <*mlex*> measure edge_distance")
  show "wf (node_distance <*mlex*> measure edge_distance)"
    by (simp add: wf_mlex)
next
  fix this :: nat and g :: "('n, 'e) graph" and it it' :: iterator
  assume step: "iter_incr g it = Inr it'"
  have bounds: "next_node h i = Some i' \<Longrightarrow> i < i' \<and> i' < length h"
    for h :: "('n, 'e) graph" and i i'
  proof (induction h i rule: next_node.induct)
    case (1 h i)
    then show ?case
      by (subst (asm) (2) next_node.simps) (auto split: if_splits)
  qed
  from step obtain i j p
    where pos: "current_node it = Some i" "current_edge it = Some j" "graph_ptr it = Some p"
      and valid: "i < length g" "j < length (fst (snd (g ! i)))"
    by (auto simp: iter_incr_def split: option.splits if_splits)
  show "((this, g, it'), (this, g, it)) \<in> node_distance <*mlex*> measure edge_distance"
  proof (cases "Suc j = length (fst (snd (g ! i)))")
    case True
    show ?thesis
    proof (cases "next_node g i")
      case None
      with True pos valid step have "it' = graph_end p g"
        by (simp add: iter_incr_def)
      with pos valid show ?thesis
        by (intro mlex_less) (simp add: node_distance_def graph_end_def)
    next
      case (Some i')
      with True pos valid step
      have "it' = it\<lparr>current_node := Some i', current_edge := Some 0\<rparr>"
        by (simp add: iter_incr_def)
      moreover from Some have "i < i'" "i' < length g"
        using bounds by blast+
      ultimately show ?thesis
        using pos valid by (intro mlex_less) (simp add: node_distance_def)
    qed
  next
    case False
    with pos valid step have "it' = it\<lparr>current_edge := Some (Suc j)\<rparr>"
      by (simp add: iter_incr_def)
    with pos valid False show ?thesis
      by (intro mlex_leq) (auto simp: node_distance_def edge_distance_def)
  qed
qed

section \<open>Sequences of public operations\<close>

text \<open>
  A client drives a graph through its public modifiers. \<open>apply_operation\<close> gives the
  graph as one call leaves it, whether the call returned or threw; \<open>run\<close> applies a
  sequence of calls, starting from the graph given (the default-constructed graph is
  the empty list).
\<close>

datatype ('n, 'e) operation =
    Insert_node 'n
  | Insert_edge 'n 'n "'e option"
  | Replace_node 'n 'n
  | Merge_replace_node 'n 'n
  | Erase_node 'n
  | Erase_edge 'n 'n "'e option"
  | Clear

fun apply_operation ::
  "('n::linorder, 'e::linorder) operation \<Rightarrow> ('n, 'e) graph \<Rightarrow> ('n, 'e) graph" where
  "apply_operation (Insert_node v) g = snd (insert_node v g)"
| "apply_operation (Insert_edge src dst weight) g = snd (insert_edge src dst weight g)"
| "apply_operation (Replace_node old_data new_data) g = snd (replace_node old_data new_data g)"
| "apply_operation (Merge_replace_node old_data new_data) g = snd (merge_replace_node old_data new_data g)"
| "apply_operation (Erase_node v) g = snd (erase_node v g)"
| "apply_operation (Erase_edge src dst weight) g = snd (erase_edge src dst weight g)"
| "apply_operation Clear g = clear g"

definition run :: "('n::linorder, 'e::linorder) operation list \<Rightarrow> ('n, 'e) graph \<Rightarrow> ('n, 'e) graph" where
  "run ops g = fold apply_operation ops g"

section \<open>The properties the specification states\<close>

text \<open>
  The store invariant of the specification: every node value has exactly one record;
  every stored handle is in the outgoing set of its source and in the incoming set of
  its destination; the source and the destination of every stored handle are nodes.
\<close>

definition stored_handles :: "('n, 'e) graph \<Rightarrow> ('n, 'e) edge_ptr list" where
  "stored_handles g = concat (map (\<lambda>p. fst (snd p) @ snd (snd p)) g)"

definition endpoints_are_nodes :: "('n, 'e) graph \<Rightarrow> bool" where
  "endpoints_are_nodes g =
     list_all (\<lambda>e. is_node g (fst (get_nodes (snd e))) \<and> is_node g (snd (get_nodes (snd e))))
       (stored_handles g)"

definition store_invariant :: "('n, 'e) graph \<Rightarrow> bool" where
  "store_invariant g =
     (distinct (map fst g) \<and>
      list_all (\<lambda>e. e \<in> set (outgoing g (fst (get_nodes (snd e)))) \<and>
                     e \<in> set (incoming g (snd (get_nodes (snd e)))))
        (stored_handles g) \<and>
      endpoints_are_nodes g)"

text \<open>
  The canonical edge order of the specification, on edge content alone: by source,
  then by destination, then unweighted before weighted, then by weight.
\<close>

definition canonical_less :: "('n::linorder, 'e::linorder) edge \<Rightarrow> ('n, 'e) edge \<Rightarrow> bool" where
  "canonical_less a b =
     (fst (get_nodes a) < fst (get_nodes b) \<or>
      (fst (get_nodes a) = fst (get_nodes b) \<and>
       (snd (get_nodes a) < snd (get_nodes b) \<or>
        (snd (get_nodes a) = snd (get_nodes b) \<and>
         (case (get_weight a, get_weight b) of
            (None, Some w) \<Rightarrow> True
          | (Some v, Some w) \<Rightarrow> v < w
          | _ \<Rightarrow> False)))))"

text \<open>
  The right-hand side of traversal completeness, in the specification's words: for
  every source node in ascending order (\<open>nodes\<close>) and every destination it has an edge
  to, in ascending order (\<open>connections\<close>), the result of the query \<open>edges\<close>, concatenated,
  each edge as the record \<open>(from, to, weight)\<close>. A query that throws makes the whole
  throw.
\<close>

fun concat_results :: "(error + 'a list) list \<Rightarrow> error + 'a list" where
  "concat_results [] = Inr []"
| "concat_results (r # rs) =
     (case r of
        Inl err \<Rightarrow> Inl err
      | Inr xs \<Rightarrow> (case concat_results rs of Inl err \<Rightarrow> Inl err | Inr ys \<Rightarrow> Inr (xs @ ys)))"

definition edge_record :: "('n, 'e) edge \<Rightarrow> ('n, 'e) value_type" where
  "edge_record e = (fst (get_nodes e), snd (get_nodes e), get_weight e)"

definition edges_of_source :: "('n::linorder, 'e) graph \<Rightarrow> 'n \<Rightarrow> error + ('n, 'e) value_type list" where
  "edges_of_source g s =
     (case connections g s of
        Inl err \<Rightarrow> Inl err
      | Inr ds \<Rightarrow> concat_results (map (\<lambda>d. map_sum id (map edge_record) (edges g s d)) ds))"

definition edges_by_query :: "('n::linorder, 'e) graph \<Rightarrow> error + ('n, 'e) value_type list" where
  "edges_by_query g = concat_results (map (edges_of_source g) (nodes g))"

text \<open>
  The records of the outgoing sets in storage order, from node position \<open>i\<close> on: the
  nodes in key order, each with its outgoing edges in the order of its set.
\<close>

definition outgoing_records :: "('n, 'e) graph \<Rightarrow> nat \<Rightarrow> ('n, 'e) value_type list" where
  "outgoing_records g i = concat (map (\<lambda>p. map (\<lambda>e. edge_record (snd e)) (fst (snd p))) (drop i g))"

text \<open>The content of the edge \<open>create_edge_ptr\<close> allocates.\<close>

definition edge_of :: "'n \<Rightarrow> 'n \<Rightarrow> 'e option \<Rightarrow> ('n, 'e) edge" where
  "edge_of src dst weight =
     (case weight of None \<Rightarrow> unweighted_edge src dst | Some w \<Rightarrow> weighted_edge src dst w)"

section \<open>Example graphs\<close>

text \<open>
  Nodes 1 and 2 with the unweighted edge from 1 to 2, and that graph after
  \<open>replace_node(2, 3)\<close> and after \<open>replace_node(1, 3)\<close> followed by \<open>insert_node(1)\<close>.
\<close>

definition one_edge :: "(nat, int) operation list" where
  "one_edge = [Insert_node 1, Insert_node 2, Insert_edge 1 2 None]"

definition target_replaced :: "(nat, int) graph" where
  "target_replaced = run (one_edge @ [Replace_node 2 3]) []"

definition source_replaced :: "(nat, int) graph" where
  "source_replaced = run (one_edge @ [Replace_node 1 3, Insert_node 1]) []"

text \<open>
  The merge example of the documentation: nodes A, B, C, D with the edges (A, B, 1),
  (A, C, 2), (A, D, 3), and the same graph with the edge (B, B, 1) as well.
\<close>

definition merge_example :: "(string, int) operation list" where
  "merge_example =
     [Insert_node ''A'', Insert_node ''B'', Insert_node ''C'', Insert_node ''D'',
      Insert_edge ''A'' ''B'' (Some 1), Insert_edge ''A'' ''C'' (Some 2),
      Insert_edge ''A'' ''D'' (Some 3)]"

definition merged :: "(string, int) graph" where
  "merged = run (merge_example @ [Merge_replace_node ''A'' ''B'']) []"

definition merged_duplicate :: "(string, int) graph" where
  "merged_duplicate =
     run (merge_example @ [Insert_edge ''B'' ''B'' (Some 1), Merge_replace_node ''A'' ''B'']) []"

text \<open>Two nodes without edges.\<close>

definition two_nodes :: "(nat, int) graph" where
  "two_nodes = run [Insert_node 1, Insert_node 2] []"

section \<open>Facts about the containers\<close>

text \<open>
  The defining equations of the three loops are unfolded by hand, one step at a time.
\<close>

declare skip_empty.simps [simp del] next_node.simps [simp del] traverse.simps [simp del]

lemma edge_eq_iff: "edge_eq a b = (a = b)"
  by (cases a; cases b) (auto simp: edge_eq_def)

lemma find_if_le: "find_if P xs \<le> length xs"
  by (induction xs) auto

lemma find_if_end_iff: "(find_if P xs = length xs) = (\<forall>x\<in>set xs. \<not> P x)"
proof (induction xs)
  case Nil
  show ?case by simp
next
  case (Cons x xs)
  then show ?case by auto
qed

lemma find_if_nth: "find_if P xs \<noteq> length xs \<Longrightarrow> P (xs ! find_if P xs)"
  by (induction xs) auto

lemma find_if_append_hit:
  "\<forall>y\<in>set ys. \<not> P y \<Longrightarrow> P x \<Longrightarrow> find_if P (ys @ x # zs) = length ys"
  by (induction ys) auto

lemma erase_at_middle: "erase_at (length ys) (ys @ x # zs) = ys @ zs"
  by (simp add: erase_at_def)

lemma set_insert_splits:
  "snd (set_insert cmp x xs) \<Longrightarrow> \<exists>ys zs. xs = ys @ zs \<and> fst (set_insert cmp x xs) = ys @ x # zs"
proof (induction xs)
  case Nil
  then show ?case by simp
next
  case (Cons y xs)
  show ?case
  proof (cases "cmp x y")
    case True
    then have "y # xs = [] @ (y # xs) \<and> fst (set_insert cmp x (y # xs)) = [] @ x # (y # xs)"
      by simp
    then show ?thesis by blast
  next
    case False
    with Cons.prems have lt: "cmp y x" and ins: "snd (set_insert cmp x xs)"
      by (auto split: if_splits)
    from Cons.IH [OF ins] obtain ys zs where "xs = ys @ zs" "fst (set_insert cmp x xs) = ys @ x # zs"
      by blast
    with False lt have "y # xs = (y # ys) @ zs \<and> fst (set_insert cmp x (y # xs)) = (y # ys) @ x # zs"
      by simp
    then show ?thesis by blast
  qed
qed

lemma is_node_iff: "is_node g v = (v \<in> fst ` set g)"
  unfolding is_node_def map_find_def find_if_end_iff by force

lemma map_find_nth:
  "is_node g v \<Longrightarrow> fst (g ! map_find g v) = v \<and> map_of g v = Some (snd (g ! map_find g v))"
  unfolding is_node_def map_find_def
  by (induction g) (auto split: if_splits)

lemma map_find_less: "is_node g v \<Longrightarrow> map_find g v < length g"
  unfolding is_node_def map_find_def
  using find_if_le [of "\<lambda>p. fst p = v" g] by simp

lemma outgoing_nth: "is_node g v \<Longrightarrow> fst (snd (g ! map_find g v)) = outgoing g v"
  by (simp add: outgoing_def map_find_nth)


lemma map_fst_update_first: "map fst (update_first n f g) = map fst g"
  by (induction g) (auto simp: update_first_def)

lemma map_fst_update_second: "map fst (update_second n f g) = map fst g"
  by (induction g) (auto simp: update_second_def)

lemma is_node_update_first: "is_node (update_first n f g) v = is_node g v"
  using map_fst_update_first [of n f g] by (simp add: is_node_iff flip: set_map)

lemma is_node_update_second: "is_node (update_second n f g) v = is_node g v"
  using map_fst_update_second [of n f g] by (simp add: is_node_iff flip: set_map)

lemma map_of_update_first:
  "map_of (update_first n f g) k =
     map_option (\<lambda>p. if k = n then (f (fst p), snd p) else p) (map_of g k)"
  by (induction g) (auto simp: update_first_def)

lemma map_of_update_second:
  "map_of (update_second n f g) k =
     map_option (\<lambda>p. if k = n then (fst p, f (snd p)) else p) (map_of g k)"
  by (induction g) (auto simp: update_second_def)

lemma is_node_map_of: "is_node g v = (map_of g v \<noteq> None)"
  by (simp add: is_node_iff map_of_eq_None_iff)

lemma outgoing_update_first:
  "outgoing (update_first n f g) k = (if k = n \<and> is_node g k then f (outgoing g k) else outgoing g k)"
  by (auto simp: outgoing_def map_of_update_first is_node_map_of split: option.splits)

lemma incoming_update_first: "incoming (update_first n f g) k = incoming g k"
  by (auto simp: incoming_def map_of_update_first split: option.splits)

lemma outgoing_update_second: "outgoing (update_second n f g) k = outgoing g k"
  by (auto simp: outgoing_def map_of_update_second split: option.splits)

lemma incoming_update_second:
  "incoming (update_second n f g) k = (if k = n \<and> is_node g k then f (incoming g k) else incoming g k)"
  by (auto simp: incoming_def map_of_update_second is_node_map_of split: option.splits)

lemma snd_create_edge_ptr:
  "snd (create_edge_ptr g src dst weight) =
     (case weight of None \<Rightarrow> unweighted_edge src dst | Some w \<Rightarrow> weighted_edge src dst w)"
  by (simp add: create_edge_ptr_def make_shared_def split: option.splits)

lemma insert_edge_true:
  assumes "insert_edge src dst weight g = (Inr True, g')"
  shows "is_node g' src" and "is_node g' dst"
    and "\<exists>a ys zs. outgoing g src = ys @ zs \<and> outgoing g' src = ys @ (a, edge_of src dst weight) # zs
           \<and> (\<forall>e\<in>set (ys @ zs). snd e \<noteq> edge_of src dst weight)"
    and "\<exists>a. (a, edge_of src dst weight) \<in> set (incoming g' dst)"
proof -
  define new where "new = create_edge_ptr g src dst weight"
  define r1 where "r1 = set_insert EdgePtrComparator new (outgoing g src)"
  define g1 where "g1 = update_first src (\<lambda>s. fst r1) g"
  define r2 where "r2 = set_insert EdgePtrComparator new (incoming g1 dst)"
  have snd_new: "snd new = edge_of src dst weight"
    by (simp add: new_def snd_create_edge_ptr edge_of_def)
  from assms have nodes: "is_node g src" "is_node g dst"
    by (auto simp: insert_edge_def split: if_splits)
  from assms nodes have fresh: "\<not> existed_edge (outgoing g src) new"
    by (auto simp: insert_edge_def Let_def new_def split: if_splits)
  from assms nodes fresh have ok1: "snd r1"
    by (auto simp: insert_edge_def Let_def new_def r1_def split: if_splits)
  from assms nodes fresh ok1 have g': "g' = update_second dst (\<lambda>s. fst r2) g1" and ok2: "snd r2"
    by (auto simp: insert_edge_def Let_def new_def r1_def g1_def r2_def split: if_splits)
  show "is_node g' src" "is_node g' dst"
    using nodes by (simp_all add: g' g1_def is_node_update_first is_node_update_second)
  have out: "outgoing g' src = fst r1"
    using nodes by (simp add: g' g1_def outgoing_update_second outgoing_update_first)
  from set_insert_splits [OF ok1 [unfolded r1_def]] obtain ys zs
    where split: "outgoing g src = ys @ zs" "fst r1 = ys @ new # zs"
    unfolding r1_def by blast
  from fresh have "\<forall>e\<in>set (outgoing g src). snd e \<noteq> edge_of src dst weight"
    by (simp add: existed_edge_def find_if_end_iff edge_eq_iff snd_new)
  with split out snd_new
  have "outgoing g src = ys @ zs \<and> outgoing g' src = ys @ (fst new, edge_of src dst weight) # zs
           \<and> (\<forall>e\<in>set (ys @ zs). snd e \<noteq> edge_of src dst weight)"
    by (metis prod.collapse)
  then show "\<exists>a ys zs. outgoing g src = ys @ zs \<and> outgoing g' src = ys @ (a, edge_of src dst weight) # zs
           \<and> (\<forall>e\<in>set (ys @ zs). snd e \<noteq> edge_of src dst weight)"
    by blast
  have dst1: "is_node g1 dst"
    using nodes by (simp add: g1_def is_node_update_first)
  then have "incoming g' dst = fst r2"
    by (simp add: g' incoming_update_second)
  moreover from set_insert_splits [OF ok2 [unfolded r2_def]] have "new \<in> set (fst r2)"
    unfolding r2_def by auto
  ultimately have "(fst new, edge_of src dst weight) \<in> set (incoming g' dst)"
    using snd_new by (metis prod.collapse)
  then show "\<exists>a. (a, edge_of src dst weight) \<in> set (incoming g' dst)"
    by blast
qed


lemma deref_edge_of:
  "(fst (get_nodes (edge_of src dst weight)), snd (get_nodes (edge_of src dst weight)),
    if is_weighted (edge_of src dst weight) then get_weight (edge_of src dst weight) else None)
   = (src, dst, weight)"
  by (cases weight) (simp_all add: edge_of_def)


section \<open>The argument checks\<close>

text \<open>
  Each operation that names nodes starts with its \<open>is_node\<close> checks. The five that do
  nothing else that can throw raise exactly when a node is absent, with their own
  message, and leave the graph as it was; \<open>replace_node\<close> and \<open>merge_replace_node\<close> raise
  their own message on an absent node, before any change.
\<close>

lemma insert_edge_raises:
  "(\<exists>err. fst (insert_edge src dst weight g) = Inl err) = (\<not> is_node g src \<or> \<not> is_node g dst)"
  "fst (insert_edge src dst weight g) = Inl err \<Longrightarrow>
     snd (insert_edge src dst weight g) = g \<and>
     err = runtime_error
       ''Cannot call gdwg::graph<N, E>::insert_edge when either src or dst node does not exist''"
  by (auto simp: insert_edge_def Let_def split: if_splits)

lemma erase_edge_raises:
  "(\<exists>err. fst (erase_edge src dst weight g) = Inl err) = (\<not> is_node g src \<or> \<not> is_node g dst)"
  "fst (erase_edge src dst weight g) = Inl err \<Longrightarrow>
     snd (erase_edge src dst weight g) = g \<and>
     err = runtime_error
       ''Cannot call gdwg::graph<N, E>::erase_edge on src or dst if they don't exist in the graph''"
  by (auto simp: erase_edge_def Let_def split: if_splits)

lemma queries_raise:
  "(\<exists>err. is_connected g src dst = Inl err) = (\<not> is_node g src \<or> \<not> is_node g dst)"
  "(\<exists>err. edges g src dst = Inl err) = (\<not> is_node g src \<or> \<not> is_node g dst)"
  "(\<exists>err. connections g src = Inl err) = (\<not> is_node g src)"
  by (auto simp: is_connected_def edges_def connections_def)

lemma replace_node_absent:
  "\<not> is_node g old_data \<Longrightarrow>
     replace_node old_data new_data g =
       (Inl (runtime_error
          ''Cannot call gdwg::graph<N, E>::replace_node on a node that doesn't exist''), g)"
  "\<not> is_node g old_data \<or> \<not> is_node g new_data \<Longrightarrow>
     merge_replace_node old_data new_data g =
       (Inl (runtime_error
          ''Cannot call gdwg::graph<N, E>::merge_replace_node on old or new data if they don't exist in the graph''), g)"
  by (auto simp: replace_node_def merge_replace_node_def)

section \<open>Edge insertion on any graph\<close>

text \<open>
  The new handle has an address no stored handle has, so both \<open>std::set::insert\<close> calls
  succeed: \<open>insert_edge\<close> returns false exactly when an edge of equal content is in the
  outgoing set of \<open>src\<close> or in the incoming set of \<open>dst\<close>, and then changes nothing.
\<close>

lemma fold_max_ge: "m \<le> fold max xs (m::nat) \<and> (\<forall>x\<in>set xs. x \<le> fold max xs m)"
proof (induction xs arbitrary: m)
  case Nil
  show ?case by simp
next
  case (Cons x xs)
  from Cons.IH [of "max x m"] show ?case
    by (auto simp: max_def split: if_splits)
qed

lemma make_shared_fresh: "fst (make_shared g e) \<notin> set (live_addresses g)"
  using fold_max_ge [of 0 "live_addresses g"] by (auto simp: make_shared_def)

lemma outgoing_live: "e \<in> set (outgoing g n) \<Longrightarrow> fst e \<in> set (live_addresses g)"
proof -
  assume e: "e \<in> set (outgoing g n)"
  then obtain p where "map_of g n = Some p" and "e \<in> set (fst p)"
    by (cases "map_of g n") (auto simp: outgoing_def)
  then have "(n, p) \<in> set g" and "e \<in> set (fst p)"
    by (auto dest: map_of_SomeD)
  then show ?thesis
    by (force simp: live_addresses_def)
qed

lemma incoming_live: "e \<in> set (incoming g n) \<Longrightarrow> fst e \<in> set (live_addresses g)"
proof -
  assume e: "e \<in> set (incoming g n)"
  then obtain p where "map_of g n = Some p" and "e \<in> set (snd p)"
    by (cases "map_of g n") (auto simp: incoming_def)
  then have "(n, p) \<in> set g" and "e \<in> set (snd p)"
    by (auto dest: map_of_SomeD)
  then show ?thesis
    by (force simp: live_addresses_def)
qed

lemma EdgePtrComparator_total:
  "fst a \<noteq> fst b \<Longrightarrow> EdgePtrComparator a b \<or> EdgePtrComparator b a"
  by (cases "snd a"; cases "snd b") (auto simp: EdgePtrComparator_def)

lemma set_insert_inserts:
  "\<forall>y\<in>set xs. cmp x y \<or> cmp y x \<Longrightarrow> snd (set_insert cmp x xs)"
  by (induction xs) auto


lemma existed_edge_iff:
  "existed_edge edges_ptr (create_edge_ptr g src dst weight) =
     (\<exists>e\<in>set edges_ptr. snd e = edge_of src dst weight)"
  using find_if_end_iff [of "\<lambda>e. edge_eq (snd e) (edge_of src dst weight)" edges_ptr]
  by (simp add: existed_edge_def snd_create_edge_ptr edge_of_def [symmetric] edge_eq_iff)

lemma create_edge_ptr_inserts:
  assumes "\<forall>e\<in>set xs. fst e \<in> set (live_addresses g)"
  shows "snd (set_insert EdgePtrComparator (create_edge_ptr g src dst weight) xs)"
proof (rule set_insert_inserts, rule ballI)
  fix y assume "y \<in> set xs"
  with assms have "fst y \<in> set (live_addresses g)"
    by blast
  moreover have "fst (create_edge_ptr g src dst weight) \<notin> set (live_addresses g)"
    by (simp add: create_edge_ptr_def make_shared_fresh split: option.splits)
  ultimately have "fst (create_edge_ptr g src dst weight) \<noteq> fst y"
    by metis
  then show "EdgePtrComparator (create_edge_ptr g src dst weight) y \<or>
             EdgePtrComparator y (create_edge_ptr g src dst weight)"
    by (rule EdgePtrComparator_total)
qed

lemma insert_edge_returns:
  assumes nodes: "is_node g src" "is_node g dst"
  shows "fst (insert_edge src dst weight g) =
           Inr (\<not> ((\<exists>e\<in>set (outgoing g src). snd e = edge_of src dst weight) \<or>
                    (\<exists>e\<in>set (incoming g dst). snd e = edge_of src dst weight)))"
    and "fst (insert_edge src dst weight g) = Inr False \<Longrightarrow> snd (insert_edge src dst weight g) = g"
proof -
  let ?new = "create_edge_ptr g src dst weight"
  let ?g1 = "update_first src (\<lambda>s. fst (set_insert EdgePtrComparator ?new (outgoing g src))) g"
  have ok1: "snd (set_insert EdgePtrComparator ?new (outgoing g src))"
    by (rule create_edge_ptr_inserts) (simp add: outgoing_live)
  have "incoming ?g1 dst = incoming g dst"
    by (simp add: incoming_update_first)
  then have ok2: "snd (set_insert EdgePtrComparator ?new (incoming ?g1 dst))"
    using create_edge_ptr_inserts [of "incoming g dst" g src dst weight]
    by (simp add: incoming_live)
  show "fst (insert_edge src dst weight g) =
           Inr (\<not> ((\<exists>e\<in>set (outgoing g src). snd e = edge_of src dst weight) \<or>
                    (\<exists>e\<in>set (incoming g dst). snd e = edge_of src dst weight)))"
    using nodes ok1 ok2 by (simp add: insert_edge_def Let_def existed_edge_iff)
  show "fst (insert_edge src dst weight g) = Inr False \<Longrightarrow> snd (insert_edge src dst weight g) = g"
    using nodes ok1 ok2 by (auto simp: insert_edge_def Let_def split: if_splits)
qed

section \<open>Node replacement where every stored edge ends at nodes\<close>

text \<open>
  \<open>insert_edge\<close> keeps the node keys and adds at most the new handle, whose endpoints it has
  checked. So on a graph in which the source and the destination of every stored handle
  are nodes, no \<open>insert_edge\<close> call of \<open>move_node_data\<close> throws, and \<open>replace_node\<close> and
  \<open>merge_replace_node\<close> raise exactly when a node argument is absent.
\<close>

lemma set_insert_subset: "set (fst (set_insert cmp x xs)) \<subseteq> insert x (set xs)"
  by (induction xs) auto

lemma outgoing_stored: "set (outgoing g n) \<subseteq> set (stored_handles g)"
proof
  fix e assume "e \<in> set (outgoing g n)"
  then obtain p where "map_of g n = Some p" and "e \<in> set (fst p)"
    by (cases "map_of g n") (auto simp: outgoing_def)
  then have "(n, p) \<in> set g" and "e \<in> set (fst p)"
    by (auto dest: map_of_SomeD)
  then show "e \<in> set (stored_handles g)"
    by (force simp: stored_handles_def)
qed

lemma incoming_stored: "set (incoming g n) \<subseteq> set (stored_handles g)"
proof
  fix e assume "e \<in> set (incoming g n)"
  then obtain p where "map_of g n = Some p" and "e \<in> set (snd p)"
    by (cases "map_of g n") (auto simp: incoming_def)
  then have "(n, p) \<in> set g" and "e \<in> set (snd p)"
    by (auto dest: map_of_SomeD)
  then show "e \<in> set (stored_handles g)"
    by (force simp: stored_handles_def)
qed

lemma stored_update_first:
  "set (stored_handles (update_first n (\<lambda>s. xs) g)) \<subseteq> set (stored_handles g) \<union> set xs"
  by (auto simp: stored_handles_def update_first_def split: if_splits)

lemma stored_update_second:
  "set (stored_handles (update_second n (\<lambda>s. xs) g)) \<subseteq> set (stored_handles g) \<union> set xs"
  by (auto simp: stored_handles_def update_second_def split: if_splits)

lemma insert_edge_nodes: "map fst (snd (insert_edge src dst weight g)) = map fst g"
  by (simp add: insert_edge_def Let_def map_fst_update_first map_fst_update_second)

lemma is_node_cong: "map fst g' = map fst g \<Longrightarrow> is_node g' v = is_node g v"
  by (metis is_node_iff set_map)

lemma insert_edge_stored:
  "set (stored_handles (snd (insert_edge src dst weight g))) \<subseteq>
     insert (create_edge_ptr g src dst weight) (set (stored_handles g))"
proof -
  let ?new = "create_edge_ptr g src dst weight"
  let ?r1 = "set_insert EdgePtrComparator ?new (outgoing g src)"
  let ?g1 = "update_first src (\<lambda>s. fst ?r1) g"
  let ?r2 = "set_insert EdgePtrComparator ?new (incoming ?g1 dst)"
  have one: "set (stored_handles ?g1) \<subseteq> insert ?new (set (stored_handles g))"
    using stored_update_first [of src "fst ?r1" g] set_insert_subset [of EdgePtrComparator ?new "outgoing g src"]
      outgoing_stored [of g src] by blast
  have "set (stored_handles (update_second dst (\<lambda>s. fst ?r2) ?g1)) \<subseteq> insert ?new (set (stored_handles g))"
    using stored_update_second [of dst "fst ?r2" ?g1] set_insert_subset [of EdgePtrComparator ?new "incoming ?g1 dst"]
      incoming_stored [of ?g1 dst] one by blast
  with one show ?thesis
    by (auto simp: insert_edge_def Let_def)
qed

lemma insert_edge_endpoints:
  assumes "endpoints_are_nodes g"
  shows "endpoints_are_nodes (snd (insert_edge src dst weight g))"
proof (cases "is_node g src \<and> is_node g dst")
  case False
  with assms show ?thesis
    by (auto simp: insert_edge_def)
next
  case True
  let ?g' = "snd (insert_edge src dst weight g)"
  have nodes: "is_node ?g' v = is_node g v" for v
    by (rule is_node_cong) (rule insert_edge_nodes)
  have "get_nodes (snd (create_edge_ptr g src dst weight)) = (src, dst)"
    by (simp add: snd_create_edge_ptr split: option.splits)
  with True assms insert_edge_stored [of src dst weight g] show ?thesis
    unfolding endpoints_are_nodes_def list_all_iff nodes by fastforce
qed


lemma insert_new_edge_eq:
  "insert_new_edge e src dst g = insert_edge src dst (get_weight (snd e)) g"
  by (cases "snd e") (simp_all add: insert_new_edge_def)

lemma insert_edge_no_raise:
  "is_node g src \<Longrightarrow> is_node g dst \<Longrightarrow> \<exists>b. fst (insert_edge src dst weight g) = Inr b"
  using insert_edge_raises(1) [of src dst weight g]
  by (cases "fst (insert_edge src dst weight g)") auto

lemma handle_outgoing_returns:
  "endpoints_are_nodes g \<Longrightarrow> is_node g new_node \<Longrightarrow>
   \<forall>e\<in>set es. is_node g (snd (get_nodes (snd e))) \<Longrightarrow>
     fst (handle_outgoing new_node es g) = Inr () \<and>
     map fst (snd (handle_outgoing new_node es g)) = map fst g \<and>
     endpoints_are_nodes (snd (handle_outgoing new_node es g))"
proof (induction es arbitrary: g)
  case Nil
  then show ?case by simp
next
  case (Cons e es)
  let ?r = "insert_edge new_node (snd (get_nodes (snd e))) (get_weight (snd e)) g"
  from Cons.prems obtain b where b: "fst ?r = Inr b"
    using insert_edge_no_raise [of g new_node "snd (get_nodes (snd e))"] by auto
  have keys: "map fst (snd ?r) = map fst g"
    by (rule insert_edge_nodes)
  then have nodes: "is_node (snd ?r) v = is_node g v" for v
    by (rule is_node_cong)
  have "endpoints_are_nodes (snd ?r)"
    using Cons.prems(1) by (rule insert_edge_endpoints)
  from Cons.IH [OF this, unfolded nodes] Cons.prems
  have "fst (handle_outgoing new_node es (snd ?r)) = Inr () \<and>
     map fst (snd (handle_outgoing new_node es (snd ?r))) = map fst (snd ?r) \<and>
     endpoints_are_nodes (snd (handle_outgoing new_node es (snd ?r)))"
    by simp
  with b keys show ?case
    by (cases ?r) (simp add: insert_new_edge_eq)
qed

lemma handle_incoming_returns:
  "endpoints_are_nodes g \<Longrightarrow> is_node g new_node \<Longrightarrow>
   \<forall>e\<in>set es. is_node g (fst (get_nodes (snd e))) \<Longrightarrow>
     fst (handle_incoming new_node es g) = Inr () \<and>
     map fst (snd (handle_incoming new_node es g)) = map fst g \<and>
     endpoints_are_nodes (snd (handle_incoming new_node es g))"
proof (induction es arbitrary: g)
  case Nil
  then show ?case by simp
next
  case (Cons e es)
  let ?r = "insert_edge (fst (get_nodes (snd e))) new_node (get_weight (snd e)) g"
  from Cons.prems obtain b where b: "fst ?r = Inr b"
    using insert_edge_no_raise [of g "fst (get_nodes (snd e))" new_node] by auto
  have keys: "map fst (snd ?r) = map fst g"
    by (rule insert_edge_nodes)
  then have nodes: "is_node (snd ?r) v = is_node g v" for v
    by (rule is_node_cong)
  have "endpoints_are_nodes (snd ?r)"
    using Cons.prems(1) by (rule insert_edge_endpoints)
  from Cons.IH [OF this, unfolded nodes] Cons.prems
  have "fst (handle_incoming new_node es (snd ?r)) = Inr () \<and>
     map fst (snd (handle_incoming new_node es (snd ?r))) = map fst (snd ?r) \<and>
     endpoints_are_nodes (snd (handle_incoming new_node es (snd ?r)))"
    by simp
  with b keys show ?case
    by (cases ?r) (simp add: insert_new_edge_eq)
qed

lemma endpoints_are_nodesD:
  "endpoints_are_nodes g \<Longrightarrow> e \<in> set (stored_handles g) \<Longrightarrow>
     is_node g (fst (get_nodes (snd e))) \<and> is_node g (snd (get_nodes (snd e)))"
  by (simp add: endpoints_are_nodes_def list_all_iff)

lemma move_node_data_returns:
  assumes inv: "endpoints_are_nodes g" and new: "is_node g new_node"
  shows "fst (move_node_data old_node new_node g) = Inr ()"
proof -
  let ?r1 = "handle_outgoing new_node (outgoing g old_node) g"
  define g1 where "g1 = snd ?r1"
  have "\<forall>e\<in>set (outgoing g old_node). is_node g (snd (get_nodes (snd e)))"
    using endpoints_are_nodesD [OF inv] outgoing_stored [of g old_node] by blast
  from handle_outgoing_returns [OF inv new this]
  have fst1: "fst ?r1 = Inr ()" and keys: "map fst g1 = map fst g" and inv1: "endpoints_are_nodes g1"
    by (simp_all add: g1_def)
  from fst1 have r1: "?r1 = (Inr (), g1)"
    by (simp add: g1_def prod_eq_iff)
  have new1: "is_node g1 new_node"
    using new is_node_cong [OF keys] by simp
  let ?r2 = "handle_incoming new_node (incoming g1 old_node) g1"
  have "\<forall>e\<in>set (incoming g1 old_node). is_node g1 (fst (get_nodes (snd e)))"
    using endpoints_are_nodesD [OF inv1] incoming_stored [of g1 old_node] by blast
  from handle_incoming_returns [OF inv1 new1 this] have "fst ?r2 = Inr ()"
    by simp
  then show ?thesis
    by (auto simp: move_node_data_def r1 split: prod.splits sum.splits)
qed

lemma map_assign_entries: "set (map_assign k v g) \<subseteq> insert (k, v) (set g) \<and> (k, v) \<in> set (map_assign k v g)"
  by (induction g) auto

lemma map_assign_keeps: "p \<in> set g \<Longrightarrow> fst p \<noteq> k \<Longrightarrow> p \<in> set (map_assign k v g)"
  by (induction g) auto

lemma insert_node_endpoints:
  assumes "endpoints_are_nodes g"
  shows "endpoints_are_nodes (snd (insert_node v g)) \<and> is_node (snd (insert_node v g)) v \<and>
         (is_node g w \<longrightarrow> is_node (snd (insert_node v g)) w)"
proof (cases "is_node g v")
  case True
  with assms show ?thesis
    by (simp add: insert_node_def)
next
  case False
  let ?g' = "map_assign v ([], []) g"
  have mono: "is_node ?g' w" if "is_node g w" for w
  proof -
    from that obtain p where "p \<in> set g" "fst p = w"
      by (auto simp: is_node_iff)
    moreover with False have "fst p \<noteq> v"
      using that by auto
    ultimately show ?thesis
      using map_assign_keeps [of p g v "([], [])"] by (auto simp: is_node_iff)
  qed
  have new: "is_node ?g' v"
    using map_assign_entries [of v "([], [])" g] by (force simp: is_node_iff)
  have "set (stored_handles ?g') \<subseteq> set (stored_handles g)"
    using map_assign_entries [of v "([], [])" g] by (fastforce simp: stored_handles_def)
  with assms mono have "endpoints_are_nodes ?g'"
    unfolding endpoints_are_nodes_def list_all_iff by blast
  with False new mono show ?thesis
    by (simp add: insert_node_def)
qed

lemma replace_node_raises_iff:
  assumes "endpoints_are_nodes g"
  shows "(\<exists>err. fst (replace_node old_data new_data g) = Inl err) = (\<not> is_node g old_data)"
    and "(\<exists>err. fst (merge_replace_node old_data new_data g) = Inl err) =
           (\<not> is_node g old_data \<or> \<not> is_node g new_data)"
proof -
  let ?g0 = "snd (insert_node new_data g)"
  from insert_node_endpoints [OF assms, of new_data]
  have "fst (move_node_data old_data new_data ?g0) = Inr ()"
    by (intro move_node_data_returns) simp_all
  then show "(\<exists>err. fst (replace_node old_data new_data g) = Inl err) = (\<not> is_node g old_data)"
    by (cases "move_node_data old_data new_data ?g0") (auto simp: replace_node_def)
  have "is_node g new_data \<Longrightarrow> fst (move_node_data old_data new_data g) = Inr ()"
    using assms by (rule move_node_data_returns)
  then show "(\<exists>err. fst (merge_replace_node old_data new_data g) = Inl err) =
           (\<not> is_node g old_data \<or> \<not> is_node g new_data)"
    by (auto simp: merge_replace_node_def)
qed


section \<open>The traversal on any graph\<close>

text \<open>
  From \<open>begin()\<close> to \<open>end()\<close> the iterator visits the outgoing sets in storage order and
  nothing else; a node without outgoing edges contributes nothing. Where the node keys
  are distinct, every outgoing set is ordered by destination and every destination is
  a node, that is the concatenation of the \<open>edges(s, d)\<close> queries.
\<close>

lemma outgoing_records_end: "length g \<le> i \<Longrightarrow> outgoing_records g i = []"
  by (simp add: outgoing_records_def)

lemma outgoing_records_step:
  "i < length g \<Longrightarrow>
     outgoing_records g i = map (\<lambda>e. edge_record (snd e)) (fst (snd (g ! i))) @ outgoing_records g (Suc i)"
  by (simp add: outgoing_records_def flip: Cons_nth_drop_Suc)

lemma skip_empty_records:
  "i \<le> skip_empty g i \<and> (i \<le> length g \<longrightarrow> skip_empty g i \<le> length g) \<and>
   outgoing_records g (skip_empty g i) = outgoing_records g i \<and>
   (skip_empty g i < length g \<longrightarrow> fst (snd (g ! skip_empty g i)) \<noteq> [])"
proof (induction g i rule: skip_empty.induct)
  case (1 g node_it)
  show ?case
  proof (cases "node_it \<noteq> length g \<and> node_it < length g \<and> fst (snd (g ! node_it)) = []")
    case True
    then have unfold: "skip_empty g node_it = skip_empty g (Suc node_it)"
      by (subst skip_empty.simps) simp
    from True have "outgoing_records g node_it = outgoing_records g (Suc node_it)"
      by (simp add: outgoing_records_step)
    with 1 True show ?thesis
      unfolding unfold by auto
  next
    case False
    then have unfold: "skip_empty g node_it = node_it"
      by (subst skip_empty.simps) (simp only: if_False)
    from False show ?thesis
      unfolding unfold by auto
  qed
qed

lemma next_node_records:
  "(next_node g i = None \<longrightarrow> outgoing_records g (Suc i) = []) \<and>
   (\<forall>i'. next_node g i = Some i' \<longrightarrow>
      i < i' \<and> i' < length g \<and> fst (snd (g ! i')) \<noteq> [] \<and>
      outgoing_records g (Suc i) = outgoing_records g i')"
proof (induction g i rule: next_node.induct)
  case (1 g i)
  show ?case
  proof (cases "length g \<le> Suc i")
    case True
    then have "next_node g i = None"
      by (subst next_node.simps) simp
    with True show ?thesis
      by (simp add: outgoing_records_end)
  next
    case False
    show ?thesis
    proof (cases "fst (snd (g ! Suc i)) = []")
      case True
      with False have unfold: "next_node g i = next_node g (Suc i)"
        by (subst next_node.simps) simp
      from True False have "outgoing_records g (Suc i) = outgoing_records g (Suc (Suc i))"
        by (simp add: outgoing_records_step)
      with "1.IH" [OF False True] show ?thesis
        unfolding unfold by auto
    next
      case nonempty: False
      with False have "next_node g i = Some (Suc i)"
        by (subst next_node.simps) simp
      with False nonempty show ?thesis
        by simp
    qed
  qed
qed

lemma deref_record:
  "(fst (get_nodes e), snd (get_nodes e), if is_weighted e then get_weight e else None) = edge_record e"
  by (cases e) (simp_all add: edge_record_def)

lemma traverse_end: "traverse this g (graph_end this g) = Inr []"
  by (subst traverse.simps) (simp add: iter_eq_def graph_end_def)

lemma traverse_from:
  "current_node it = Some i \<Longrightarrow> current_edge it = Some j \<Longrightarrow> graph_ptr it = Some this \<Longrightarrow>
   i < length g \<Longrightarrow> j < length (fst (snd (g ! i))) \<Longrightarrow>
   traverse this g it =
     Inr (map (\<lambda>e. edge_record (snd e)) (drop j (fst (snd (g ! i)))) @ outgoing_records g (Suc i))"
proof (induction this g it arbitrary: i j rule: traverse.induct)
  case (1 this g it)
  let ?out = "fst (snd (g ! i))"
  have not_end: "iter_eq g it (graph_end this g) = Inr False"
    using "1.prems" by (simp add: iter_eq_def graph_end_def)
  have d: "deref g it = Inr (edge_record (snd (?out ! j)))"
    using "1.prems" by (simp add: deref_def Let_def deref_record)
  have here: "drop j ?out = ?out ! j # drop (Suc j) ?out"
    using "1.prems" by (simp add: Cons_nth_drop_Suc)
  show ?case
  proof (cases "Suc j = length ?out")
    case last: True
    show ?thesis
    proof (cases "next_node g i")
      case None
      with last "1.prems" have step: "iter_incr g it = Inr (graph_end this g)"
        by (simp add: iter_incr_def)
      from None have "outgoing_records g (Suc i) = []"
        using next_node_records [of g i] by simp
      with not_end d step last here show ?thesis
        by (subst traverse.simps) (simp add: traverse_end)
    next
      case (Some i')
      let ?it' = "it\<lparr>current_node := Some i', current_edge := Some 0\<rparr>"
      from Some last "1.prems" have step: "iter_incr g it = Inr ?it'"
        by (simp add: iter_incr_def)
      from Some have i': "i' < length g" "fst (snd (g ! i')) \<noteq> []"
        and rest: "outgoing_records g (Suc i) = outgoing_records g i'"
        using next_node_records [of g i] by simp_all
      have "traverse this g ?it' =
          Inr (map (\<lambda>e. edge_record (snd e)) (drop 0 (fst (snd (g ! i')))) @ outgoing_records g (Suc i'))"
        using "1.prems" i' by (intro "1.IH" [OF not_end _ d step]) simp_all
      then have "traverse this g ?it' = Inr (outgoing_records g (Suc i))"
        using i' rest by (simp add: outgoing_records_step)
      with not_end d step last here show ?thesis
        by (subst traverse.simps) simp
    qed
  next
    case False
    let ?it' = "it\<lparr>current_edge := Some (Suc j)\<rparr>"
    from False "1.prems" have step: "iter_incr g it = Inr ?it'"
      by (simp add: iter_incr_def)
    have "traverse this g ?it' =
        Inr (map (\<lambda>e. edge_record (snd e)) (drop (Suc j) ?out) @ outgoing_records g (Suc i))"
      using "1.prems" False by (intro "1.IH" [OF not_end _ d step]) simp_all
    with not_end d step here show ?thesis
      by (subst traverse.simps) simp
  qed
qed

lemma traverse_begin: "traverse this g (graph_begin this g) = Inr (outgoing_records g 0)"
proof (cases "g = [] \<or> skip_empty g 0 = length g")
  case True
  then have "graph_begin this g = graph_end this g"
    by (auto simp: graph_begin_def Let_def)
  moreover from True have "outgoing_records g 0 = []"
    using skip_empty_records [where g = g and i = 0] by (auto simp: outgoing_records_end)
  ultimately show ?thesis
    by (simp add: traverse_end)
next
  case False
  let ?i = "skip_empty g 0"
  from False have i: "?i < length g" "fst (snd (g ! ?i)) \<noteq> []"
    using skip_empty_records [where g = g and i = 0] by auto
  from False have "graph_begin this g =
      \<lparr>current_node = Some ?i, current_edge = Some 0, graph_ptr = Some this\<rparr>"
    by (simp add: graph_begin_def Let_def)
  then have "traverse this g (graph_begin this g) =
      Inr (map (\<lambda>e. edge_record (snd e)) (drop 0 (fst (snd (g ! ?i)))) @ outgoing_records g (Suc ?i))"
    using i by (intro traverse_from) simp_all
  also have "\<dots> = Inr (outgoing_records g ?i)"
    using i by (simp add: outgoing_records_step)
  also have "\<dots> = Inr (outgoing_records g 0)"
    using skip_empty_records [where g = g and i = 0] by simp
  finally show ?thesis .
qed


lemma concat_results_Inr: "concat_results (map (\<lambda>x. Inr (f x)) xs) = Inr (concat (map f xs))"
  by (induction xs) simp_all

lemma set_insert_less:
  fixes x :: "'a::linorder"
  shows "sorted s \<Longrightarrow> distinct s \<Longrightarrow>
     sorted (fst (set_insert (<) x s)) \<and> distinct (fst (set_insert (<) x s)) \<and>
     set (fst (set_insert (<) x s)) = insert x (set s)"
  by (induction s) auto

lemma fold_set_insert_less:
  fixes h :: "'b \<Rightarrow> 'a::linorder"
  shows "sorted acc \<Longrightarrow> distinct acc \<Longrightarrow>
     sorted (fold (\<lambda>e a. fst (set_insert (<) (h e) a)) es acc) \<and>
     distinct (fold (\<lambda>e a. fst (set_insert (<) (h e) a)) es acc) \<and>
     set (fold (\<lambda>e a. fst (set_insert (<) (h e) a)) es acc) = h ` set es \<union> set acc"
proof (induction es arbitrary: acc)
  case Nil
  then show ?case by simp
next
  case (Cons e es)
  from set_insert_less [OF Cons.prems, of "h e"]
  have "sorted (fst (set_insert (<) (h e) acc))" "distinct (fst (set_insert (<) (h e) acc))"
    and s: "set (fst (set_insert (<) (h e) acc)) = insert (h e) (set acc)"
    by simp_all
  from Cons.IH [OF this(1,2)] s show ?case
    by auto
qed

lemma dropWhile_above:
  fixes f :: "'b \<Rightarrow> 'a::linorder"
  shows "sorted (map f xs) \<Longrightarrow> \<forall>x\<in>set xs. d \<le> f x \<Longrightarrow>
     \<forall>x\<in>set (dropWhile (\<lambda>x. f x = d) xs). d < f x"
proof (induction xs)
  case Nil
  show ?case by simp
next
  case (Cons x xs)
  show ?case
  proof (cases "f x = d")
    case True
    with Cons show ?thesis by simp
  next
    case False
    with Cons.prems have "d < f x" and "\<forall>y\<in>set xs. f x \<le> f y"
      by auto
    with False show ?thesis
      by auto
  qed
qed

lemma concat_filter_by_key:
  fixes f :: "'b \<Rightarrow> 'a::linorder"
  shows "sorted (map f xs) \<Longrightarrow> sorted ds \<Longrightarrow> distinct ds \<Longrightarrow> set ds = f ` set xs \<Longrightarrow>
     concat (map (\<lambda>d. filter (\<lambda>x. f x = d) xs) ds) = xs"
proof (induction ds arbitrary: xs)
  case Nil
  then show ?case by simp
next
  case (Cons d ds)
  let ?A = "takeWhile (\<lambda>x. f x = d) xs" and ?B = "dropWhile (\<lambda>x. f x = d) xs"
  from Cons.prems have least: "\<forall>x\<in>set xs. d \<le> f x"
    by (metis image_eqI list.set_intros(1) order_refl set_ConsD sorted_simps(2))
  with Cons.prems have above: "\<forall>x\<in>set ?B. d < f x"
    by (intro dropWhile_above)
  have A: "\<forall>x\<in>set ?A. f x = d"
    by (auto dest: set_takeWhileD)
  have split: "xs = ?A @ ?B"
    by simp
  have parts: "filter P xs = filter P ?A @ filter P ?B" for P
    by (metis filter_append takeWhile_dropWhile_id)
  have here: "filter (\<lambda>x. f x = d) xs = ?A"
  proof -
    have "filter (\<lambda>x. f x = d) ?A = ?A"
      using A by (simp add: filter_id_conv)
    moreover have "filter (\<lambda>x. f x = d) ?B = []"
      using above by (auto simp: filter_empty_conv)
    ultimately show ?thesis
      by (simp add: parts)
  qed
  have later: "filter (\<lambda>x. f x = d') xs = filter (\<lambda>x. f x = d') ?B" if "d' \<in> set ds" for d'
  proof -
    from that Cons.prems have "d' \<noteq> d" by auto
    then have "filter (\<lambda>x. f x = d') ?A = []"
      using A by (auto simp: filter_empty_conv)
    then show ?thesis
      by (simp add: parts)
  qed
  have keys: "insert d (set ds) = f ` set xs" and fresh: "d \<notin> set ds"
    using Cons.prems by auto
  have "set ds = f ` set ?B"
  proof (intro set_eqI iffI)
    fix y assume y: "y \<in> set ds"
    with keys obtain x where x: "x \<in> set xs" "y = f x"
      by blast
    with y fresh have "f x \<noteq> d"
      by blast
    with x(1) have "x \<in> set ?B"
      using A by (metis Un_iff set_append takeWhile_dropWhile_id)
    with x(2) show "y \<in> f ` set ?B"
      by blast
  next
    fix y assume "y \<in> f ` set ?B"
    then obtain x where x: "x \<in> set ?B" "y = f x"
      by blast
    with above have "y \<noteq> d"
      by auto
    moreover from x have "y \<in> f ` set xs"
      by (auto dest: set_dropWhileD)
    ultimately show "y \<in> set ds"
      using keys by blast
  qed
  moreover have "sorted (map f ?B)"
  proof -
    have "map f ?B = dropWhile (\<lambda>y. y = d) (map f xs)"
      by (simp add: dropWhile_map comp_def)
    with Cons.prems(1) show ?thesis
      by (simp add: sorted_dropWhile)
  qed
  ultimately have ih: "concat (map (\<lambda>d. filter (\<lambda>x. f x = d) ?B) ds) = ?B"
    using Cons.prems by (intro Cons.IH) auto
  have eq: "map (\<lambda>d. filter (\<lambda>x. f x = d) xs) ds = map (\<lambda>d. filter (\<lambda>x. f x = d) ?B) ds"
    using later by (intro map_cong) auto
  have "concat (map (\<lambda>d. filter (\<lambda>x. f x = d) xs) (d # ds)) =
      filter (\<lambda>x. f x = d) xs @ concat (map (\<lambda>d. filter (\<lambda>x. f x = d) xs) ds)"
    by simp
  also have "\<dots> = ?A @ ?B"
    by (simp only: here eq ih)
  also have "\<dots> = xs"
    by simp
  finally show ?case .
qed


lemma edge_record_copy: "edge_record (edge_copy e) = edge_record (snd e)"
  by (cases "snd e") (simp_all add: edge_copy_def edge_record_def)

lemma edges_of_source_entry:
  assumes keys: "distinct (map fst g)"
    and dsts: "\<forall>p\<in>set g. \<forall>e\<in>set (fst (snd p)). is_node g (snd (get_nodes (snd e)))"
    and ordered: "\<forall>p\<in>set g. sorted (map (\<lambda>e. snd (get_nodes (snd e))) (fst (snd p)))"
    and p: "p \<in> set g"
  shows "edges_of_source g (fst p) = Inr (map (\<lambda>e. edge_record (snd e)) (fst (snd p)))"
proof -
  let ?out = "fst (snd p)"
  let ?dst = "\<lambda>e :: ('a, 'b) edge_ptr. snd (get_nodes (snd e))"
  define ds where "ds = fold (\<lambda>e a. fst (set_insert (<) (?dst e) a)) ?out []"
  from keys p have "map_of g (fst p) = Some (snd p)"
    by (metis map_of_is_SomeI prod.collapse)
  then have out: "outgoing g (fst p) = ?out"
    by (simp add: outgoing_def)
  from p have node: "is_node g (fst p)"
    by (simp add: is_node_iff)
  have conn: "connections g (fst p) = Inr ds"
    using node by (simp add: connections_def out ds_def)
  have ds: "sorted ds" "distinct ds" "set ds = ?dst ` set ?out"
    using fold_set_insert_less [of "[]" ?dst ?out] by (simp_all add: ds_def)
  have each: "map_sum id (map edge_record) (edges g (fst p) d) =
      Inr (map (\<lambda>e. edge_record (snd e)) (filter (\<lambda>e. ?dst e = d) ?out))" if "d \<in> set ds" for d
  proof -
    from that ds(3) obtain e where "e \<in> set ?out" "d = ?dst e"
      by blast
    with dsts p have "is_node g d"
      by blast
    with node show ?thesis
      by (simp add: edges_def out edge_record_copy comp_def)
  qed
  have "map (\<lambda>d. map_sum id (map edge_record) (edges g (fst p) d)) ds =
      map (\<lambda>d. Inr (map (\<lambda>e. edge_record (snd e)) (filter (\<lambda>e. ?dst e = d) ?out))) ds"
    using each by (intro map_cong) auto
  then have "edges_of_source g (fst p) =
      Inr (concat (map (\<lambda>d. map (\<lambda>e. edge_record (snd e)) (filter (\<lambda>e. ?dst e = d) ?out)) ds))"
    by (simp only: edges_of_source_def conn sum.case concat_results_Inr)
  also have "concat (map (\<lambda>d. map (\<lambda>e. edge_record (snd e)) (filter (\<lambda>e. ?dst e = d) ?out)) ds) =
      map (\<lambda>e. edge_record (snd e)) (concat (map (\<lambda>d. filter (\<lambda>e. ?dst e = d) ?out) ds))"
    by (simp add: map_concat comp_def)
  also have "concat (map (\<lambda>d. filter (\<lambda>e. ?dst e = d) ?out) ds) = ?out"
    using ordered p ds by (intro concat_filter_by_key) auto
  finally show ?thesis .
qed

lemma traversal_completeness:
  assumes keys: "distinct (map fst g)"
    and dsts: "\<forall>p\<in>set g. \<forall>e\<in>set (fst (snd p)). is_node g (snd (get_nodes (snd e)))"
    and ordered: "\<forall>p\<in>set g. sorted (map (\<lambda>e. snd (get_nodes (snd e))) (fst (snd p)))"
  shows "traverse this g (graph_begin this g) = edges_by_query g"
proof -
  have "map (edges_of_source g) (nodes g) =
      map (\<lambda>p. Inr (map (\<lambda>e. edge_record (snd e)) (fst (snd p)))) g"
    using edges_of_source_entry [OF keys dsts ordered] by (simp add: nodes_def)
  then have "edges_by_query g = Inr (outgoing_records g 0)"
    by (simp only: edges_by_query_def concat_results_Inr outgoing_records_def drop_0)
  then show ?thesis
    by (simp add: traverse_begin)
qed


section \<open>Node replacement\<close>

text \<open>
  C1. In a graph where \<open>old\<close> is a node and \<open>new\<close> is not, \<open>replace_node(old, new)\<close> is
  claimed to remove \<open>old\<close> together with all of its original edges from every adjacency
  record. The code erases only the record of \<open>old\<close>: on the graph with the nodes 1, 2 and
  the edge (1, 2), \<open>replace_node(2, 3)\<close> returns true and the original edge (1, 2) is
  still in the outgoing set of node 1, where the traversal visits it, although 2 is no
  longer a node. A reflexive edge (1, 1) replaced by \<open>replace_node(1, 2)\<close> leaves the
  edge (2, 1) beside (2, 2) in the outgoing set of the new node.
\<close>

theorem replace_node_keeps_original_edges:
  "is_node (run one_edge []) 2 \<and> \<not> is_node (run one_edge []) 3 \<and>
   replace_node 2 3 (run one_edge []) =
     (Inr True,
      [(1, ([(1, unweighted_edge 1 2), (2, unweighted_edge 1 3)], [])),
       (3, ([], [(2, unweighted_edge 1 3)]))]) \<and>
   snd (replace_node 1 2 (run [Insert_node 1, Insert_edge 1 1 None] ([] :: (nat, int) graph))) =
     [(2, ([(2, unweighted_edge 2 1), (4, unweighted_edge 2 2)],
           [(3, unweighted_edge 1 2), (4, unweighted_edge 2 2)]))]"
  by code_simp

theorem replace_node_keeps_original_edges_witness:
  "(1, unweighted_edge 1 2) \<in> set (outgoing (snd (replace_node 2 3 (run one_edge []))) 1)"
  using replace_node_keeps_original_edges by (simp add: outgoing_def)

section \<open>The store invariant\<close>

text \<open>
  C2. Every graph reachable from the empty graph by public operations is claimed to
  satisfy the store invariant. The graph reached by \<open>insert_node(1)\<close>, \<open>insert_node(2)\<close>,
  \<open>insert_edge(1, 2)\<close>, \<open>replace_node(2, 3)\<close> does not: the handle of the edge (1, 2)
  is still stored in the outgoing set of node 1, its destination 2 is not a node, and
  it is in no incoming set.
\<close>

theorem store_invariant_broken_by_replace_node:
  "store_invariant (run one_edge []) \<and>
   \<not> store_invariant (run (one_edge @ [Replace_node 2 3]) [])"
  by code_simp

theorem store_invariant_broken_by_replace_node_witness:
  "\<not> store_invariant target_replaced"
  using store_invariant_broken_by_replace_node by (simp add: target_replaced_def)

section \<open>Edge insertion\<close>

text \<open>
  C3. \<open>insert_edge\<close> is claimed never to return false when no equal edge is observable
  between \<open>src\<close> and \<open>dst\<close>. After \<open>insert_node(1)\<close>, \<open>insert_node(2)\<close>,
  \<open>insert_edge(1, 2)\<close>, \<open>replace_node(1, 3)\<close>, \<open>insert_node(1)\<close> no edge from 1 to 2 is
  observable (\<open>edges\<close>, \<open>is_connected\<close> and \<open>find\<close> see none), yet \<open>insert_edge(1, 2)\<close>
  returns false: the handle of the original edge was left in the incoming set of
  node 2, which \<open>insert_edge\<close> searches as well (\<open>insert_edge_returns\<close> gives the result
  of the call on any graph).
\<close>

theorem insert_edge_refuses_unobservable_edge:
  "is_node source_replaced 1 \<and> is_node source_replaced 2 \<and>
   edges source_replaced 1 2 = Inr [] \<and>
   is_connected source_replaced 1 2 = Inr False \<and>
   graph_find 0 1 2 None source_replaced = graph_end 0 source_replaced \<and>
   insert_edge 1 2 None source_replaced = (Inr False, source_replaced)"
  by code_simp

theorem insert_edge_refuses_unobservable_edge_witness:
  "fst (insert_edge 1 2 None source_replaced) = Inr False"
  using insert_edge_refuses_unobservable_edge by simp

section \<open>The edge ordering\<close>

text \<open>
  C4. The ordering used for storage is claimed to be a function of edge content only.
  The comparator's last step orders by address: of two handles with equal content at
  the addresses 1 and 2 the first is less than the second, and not the other way
  round, so they are not equivalent and the outcome follows the addresses.
\<close>

theorem EdgePtrComparator_address_counterexample:
  "edge_eq (unweighted_edge (1::nat) 2 :: (nat, int) edge) (unweighted_edge 1 2) \<and>
   EdgePtrComparator (1, unweighted_edge (1::nat) 2 :: (nat, int) edge) (2, unweighted_edge 1 2) \<and>
   \<not> EdgePtrComparator (2, unweighted_edge (1::nat) 2 :: (nat, int) edge) (1, unweighted_edge 1 2)"
  by (simp add: EdgePtrComparator_def edge_eq_def)

text \<open>
  C4, as amended. A handle is never less than itself or than another handle of the same
  allocation. Two handles at different addresses are ordered by the canonical order
  of their content when the contents differ, and by their addresses when the
  contents are equal.
\<close>

theorem EdgePtrComparator_content_then_address:
  "EdgePtrComparator a b =
     (fst a \<noteq> fst b \<and>
      (canonical_less (snd a) (snd b) \<or> (edge_eq (snd a) (snd b) \<and> fst a < fst b)))"
  by (cases "snd a"; cases "snd b")
     (auto simp: EdgePtrComparator_def canonical_less_def edge_eq_def)

theorem EdgePtrComparator_content_then_address_witness:
  "EdgePtrComparator (5, weighted_edge (1::nat) 2 (3::int)) (4, weighted_edge 1 2 7) \<and>
   \<not> EdgePtrComparator (4, weighted_edge (1::nat) 2 (7::int)) (5, weighted_edge 1 2 3)"
  using EdgePtrComparator_content_then_address
          [of "(5, weighted_edge (1::nat) 2 (3::int))" "(4, weighted_edge 1 2 7)"]
        EdgePtrComparator_content_then_address
          [of "(4, weighted_edge (1::nat) 2 (7::int))" "(5, weighted_edge 1 2 3)"]
  by (simp add: canonical_less_def edge_eq_def)

section \<open>Argument errors\<close>

text \<open>
  C5. \<open>replace_node\<close> is claimed to raise exactly when its node argument is absent, and
  a call that raises to leave the graph as it was. On the graph left by
  \<open>replace_node(2, 3)\<close> above, node 1 is present and 5 is not, yet \<open>replace_node(1, 5)\<close>
  raises, with the message of \<open>insert_edge\<close>: the loop of \<open>move_node_data\<close> reaches the
  edge (1, 2) whose destination is no longer a node. Node 5 has been inserted by then
  and stays in the graph. Where every stored edge ends at nodes the call raises as
  claimed (\<open>replace_node_raises_iff\<close>), and the other operations do on every graph.
\<close>

theorem replace_node_raises_after_mutation:
  "is_node target_replaced 1 \<and> \<not> is_node target_replaced 5 \<and>
   replace_node 1 5 target_replaced =
     (Inl (runtime_error
        ''Cannot call gdwg::graph<N, E>::insert_edge when either src or dst node does not exist''),
      [(1, ([(1, unweighted_edge 1 2), (2, unweighted_edge 1 3)], [])),
       (3, ([], [(2, unweighted_edge 1 3)])),
       (5, ([], []))]) \<and>
   snd (replace_node 1 5 target_replaced) \<noteq> target_replaced"
  by code_simp

theorem replace_node_raises_after_mutation_witness:
  "nodes (snd (replace_node 1 5 target_replaced)) = [1, 3, 5] \<and> nodes target_replaced = [1, 3]"
proof -
  have "nodes target_replaced = [1, 3]"
    by code_simp
  with replace_node_raises_after_mutation show ?thesis
    by (simp add: nodes_def)
qed

section \<open>Merging nodes\<close>

text \<open>
  C6. On the graph with the nodes A, B, C, D and the edges (A, B, 1), (A, C, 2),
  (A, D, 3), \<open>merge_replace_node(A, B)\<close> returns normally and leaves the nodes B, C, D
  and, from \<open>begin()\<close> to \<open>end()\<close>, exactly the edges (B, B, 1), (B, C, 2), (B, D, 3). When
  the edge (B, B, 1) existed before the merge the result is the same: (B, B, 1)
  occurs once.
\<close>

theorem merge_replace_node_example:
  "fst (merge_replace_node ''A'' ''B'' (run merge_example [])) = Inr () \<and>
   nodes merged = [''B'', ''C'', ''D''] \<and>
   traverse 0 merged (graph_begin 0 merged) =
     Inr [(''B'', ''B'', Some 1), (''B'', ''C'', Some 2), (''B'', ''D'', Some 3)] \<and>
   fst (insert_edge ''B'' ''B'' (Some 1) (run merge_example [])) = Inr True \<and>
   nodes merged_duplicate = [''B'', ''C'', ''D''] \<and>
   traverse 0 merged_duplicate (graph_begin 0 merged_duplicate) =
     Inr [(''B'', ''B'', Some 1), (''B'', ''C'', Some 2), (''B'', ''D'', Some 3)]"
  by code_simp

theorem merge_replace_node_example_witness:
  "edges_by_query merged =
     Inr [(''B'', ''B'', Some 1), (''B'', ''C'', Some 2), (''B'', ''D'', Some 3)] \<and>
   traverse 0 merged (graph_begin 0 merged) = edges_by_query merged"
proof -
  have "edges_by_query merged =
     Inr [(''B'', ''B'', Some 1), (''B'', ''C'', Some 2), (''B'', ''D'', Some 3)]"
    by code_simp
  with merge_replace_node_example show ?thesis
    by simp
qed

section \<open>Traversal\<close>

text \<open>
  C7. The traversal from \<open>begin()\<close> to \<open>end()\<close> is claimed to equal the concatenation of
  the \<open>edges(s, d)\<close> queries over the pairs with an edge. On the graph left by
  \<open>replace_node(2, 3)\<close> above the traversal visits (1, 2) and (1, 3); node 1 has the
  connections 2 and 3, and the query \<open>edges(1, 2)\<close> throws, because 2 is not a node.
  Where every destination is a node the two agree (\<open>traversal_completeness\<close>).
\<close>

theorem traverse_differs_from_edges_queries:
  "traverse 0 target_replaced (graph_begin 0 target_replaced) = Inr [(1, 2, None), (1, 3, None)] \<and>
   connections target_replaced 1 = Inr [2, 3] \<and>
   edges target_replaced 1 2 =
     Inl (runtime_error
       ''Cannot call gdwg::graph<N, E>::edges if src or dst node don't exist in the graph'') \<and>
   edges_by_query target_replaced =
     Inl (runtime_error
       ''Cannot call gdwg::graph<N, E>::edges if src or dst node don't exist in the graph'')"
  by code_simp

theorem traverse_differs_from_edges_queries_witness:
  "traverse 0 target_replaced (graph_begin 0 target_replaced) \<noteq> edges_by_query target_replaced"
  using traverse_differs_from_edges_queries by simp

section \<open>Finding an inserted edge\<close>

text \<open>
  C8. When \<open>insert_edge(src, dst, weight)\<close> has returned true, \<open>find(src, dst, weight)\<close>
  returns an iterator whose dereference is \<open>(src, dst, weight)\<close>; the following
  \<open>erase_edge(src, dst, weight)\<close> returns true, and in the graph it leaves
  \<open>find(src, dst, weight)\<close> returns \<open>end()\<close>.
\<close>

theorem find_round_trip:
  assumes ins: "insert_edge src dst weight g = (Inr True, g')"
  shows "deref g' (graph_find this src dst weight g') = Inr (src, dst, weight) \<and>
         fst (erase_edge src dst weight g') = Inr True \<and>
         graph_find this src dst weight (snd (erase_edge src dst weight g')) =
           graph_end this (snd (erase_edge src dst weight g'))"
proof -
  let ?t = "edge_of src dst weight"
  let ?P = "\<lambda>e :: ('a, 'b) edge_ptr. edge_eq (snd e) ?t"
  from insert_edge_true [OF ins] obtain a ys zs b
    where nodes: "is_node g' src" "is_node g' dst"
      and out: "outgoing g' src = ys @ (a, ?t) # zs"
      and others: "\<forall>e\<in>set (ys @ zs). snd e \<noteq> ?t"
      and inc: "(b, ?t) \<in> set (incoming g' dst)"
    by blast
  have target: "snd (create_edge_ptr h src dst weight) = ?t" for h :: "('a, 'b) graph"
    by (simp add: snd_create_edge_ptr edge_of_def)
  have pos: "find_if ?P (outgoing g' src) = length ys"
    unfolding out using others by (intro find_if_append_hit) (auto simp: edge_eq_iff)
  have len: "length ys \<noteq> length (outgoing g' src)"
    by (simp add: out)
  have found: "graph_find this src dst weight g' =
      \<lparr>current_node = Some (map_find g' src), current_edge = Some (length ys), graph_ptr = Some this\<rparr>"
    using nodes pos len by (simp add: graph_find_def target)
  have "deref g' (graph_find this src dst weight g') = Inr (src, dst, weight)"
    unfolding found using nodes
    by (simp add: deref_def map_find_less outgoing_nth out deref_edge_of)
  moreover
  define g1 where "g1 = update_first src (erase_at (length ys)) g'"
  define in_it where "in_it = find_if ?P (incoming g1 dst)"
  have inc1: "incoming g1 dst = incoming g' dst"
    by (simp add: g1_def incoming_update_first)
  have in_found: "in_it \<noteq> length (incoming g1 dst)"
    unfolding in_it_def find_if_end_iff inc1 using inc by (force simp: edge_eq_iff)
  have erased: "erase_edge src dst weight g' = (Inr True, update_second dst (erase_at in_it) g1)"
    using nodes in_found len
    by (simp add: erase_edge_def target pos g1_def in_it_def Let_def)
  have out1: "outgoing (update_second dst (erase_at in_it) g1) src = ys @ zs"
    using nodes by (simp add: outgoing_update_second g1_def outgoing_update_first out erase_at_middle)
  have "find_if ?P (ys @ zs) = length (ys @ zs)"
    unfolding find_if_end_iff using others by (simp add: edge_eq_iff)
  then have "graph_find this src dst weight (update_second dst (erase_at in_it) g1) =
      graph_end this (update_second dst (erase_at in_it) g1)"
    by (simp add: graph_find_def target out1)
  ultimately show ?thesis
    by (simp add: erased)
qed


theorem find_round_trip_witness:
  "insert_edge 1 2 (Some 7) two_nodes =
     (Inr True, [(1, ([(1, weighted_edge 1 2 7)], [])), (2, ([], [(1, weighted_edge 1 2 7)]))]) \<and>
   deref (snd (insert_edge 1 2 (Some 7) two_nodes))
     (graph_find 0 1 2 (Some 7) (snd (insert_edge 1 2 (Some 7) two_nodes))) = Inr (1, 2, Some 7) \<and>
   graph_find 0 1 2 (Some 7)
     (snd (erase_edge 1 2 (Some 7) (snd (insert_edge 1 2 (Some 7) two_nodes)))) =
     graph_end 0 two_nodes"
proof -
  have h: "insert_edge 1 2 (Some 7) two_nodes =
     (Inr True, [(1, ([(1, weighted_edge 1 2 7)], [])), (2, ([], [(1, weighted_edge 1 2 7)]))])"
    by code_simp
  have e: "erase_edge 1 2 (Some 7)
      [(1::nat, ([(1, weighted_edge 1 2 (7::int))], [])), (2, ([], [(1, weighted_edge 1 2 7)]))] =
        (Inr True, two_nodes)"
    by code_simp
  from find_round_trip [OF h, of 0] h e show ?thesis
    by (simp add: graph_end_def)
qed

section \<open>Value-initialised iterators\<close>

text \<open>
  C9. Two value-initialised iterators are claimed to compare equal. Both hold the null
  \<open>graph_ptr_\<close>; \<open>operator==\<close> finds the two pointers equal and goes on to read
  \<open>graph_ptr_->g_\<close>, which dereferences the null pointer: the comparison has no
  defined result, whatever graph objects exist. Against \<open>begin()\<close> or \<open>end()\<close> of a
  graph the comparison is defined and false.
\<close>

theorem iter_eq_value_initialised_undefined:
  "iter_eq g iterator_default iterator_default = Inl undefined_behaviour \<and>
   iter_eq g iterator_default (graph_begin this g) = Inr False \<and>
   iter_eq g iterator_default (graph_end this g) = Inr False"
  by (simp add: iter_eq_def iterator_default_def graph_begin_def graph_end_def Let_def)

theorem iter_eq_value_initialised_undefined_witness:
  "iter_eq two_nodes iterator_default iterator_default \<noteq> Inr True"
  using iter_eq_value_initialised_undefined [of two_nodes] by simp

section \<open>Erasing at the end iterator\<close>

text \<open>
  C10. \<open>erase_edge(i)\<close> with \<open>i\<close> equal to \<open>end()\<close> returns \<open>end()\<close> and leaves the graph
  unchanged, for every graph.
\<close>

theorem erase_edge_iter_at_end:
  "erase_edge_iter this (graph_end this g) g = (Inr (graph_end this g), g)"
  by (simp add: erase_edge_iter_def iter_eq_def graph_end_def)

theorem erase_edge_iter_at_end_witness:
  "erase_edge_iter 0 (graph_end 0 target_replaced) target_replaced =
     (Inr (graph_end 0 target_replaced), target_replaced)"
  using erase_edge_iter_at_end [of 0 target_replaced] by simp

end
